theory Spec2Isabelle
  imports Complex_Main "HOL-Library.Multiset"
begin

section \<open>JavaScript numbers\<close>

text \<open>
  The graph components compute with JavaScript numbers. A number is modelled as a real
  (rounding and overflow of IEEE doubles are left out) or as \<open>NaN\<close>, the value that
  arithmetic on \<open>undefined\<close> produces. Optional fields (\<open>x?: number\<close>,
  \<open>fx?: number | null\<close>) are \<open>jsnum option\<close>, with \<open>None\<close> for \<open>undefined\<close> and
  \<open>null\<close>.
\<close>

datatype jsnum = Num real | NaN

fun jadd :: "jsnum \<Rightarrow> jsnum \<Rightarrow> jsnum" where
  "jadd (Num a) (Num b) = Num (a + b)"
| "jadd _ _ = NaN"

fun jsub :: "jsnum \<Rightarrow> jsnum \<Rightarrow> jsnum" where
  "jsub (Num a) (Num b) = Num (a - b)"
| "jsub _ _ = NaN"

fun jmul :: "jsnum \<Rightarrow> jsnum \<Rightarrow> jsnum" where
  "jmul (Num a) (Num b) = Num (a * b)"
| "jmul _ _ = NaN"

text \<open>
  Division by zero gives \<open>Infinity\<close> or \<open>NaN\<close> in JavaScript; the model has one
  non-finite value, \<open>NaN\<close>, for both.
\<close>

fun jdiv :: "jsnum \<Rightarrow> jsnum \<Rightarrow> jsnum" where
  "jdiv (Num a) (Num b) = (if b = 0 then NaN else Num (a / b))"
| "jdiv _ _ = NaN"

fun jsqrt :: "jsnum \<Rightarrow> jsnum" where
  "jsqrt (Num a) = (if a < 0 then NaN else Num (sqrt a))"
| "jsqrt NaN = NaN"

fun jcos :: "jsnum \<Rightarrow> jsnum" where
  "jcos (Num a) = Num (cos a)"
| "jcos NaN = NaN"

fun jsin :: "jsnum \<Rightarrow> jsnum" where
  "jsin (Num a) = Num (sin a)"
| "jsin NaN = NaN"

text \<open>Truthiness of a number: \<open>0\<close> and \<open>NaN\<close> are falsy.\<close>

fun truthy :: "jsnum \<Rightarrow> bool" where
  "truthy (Num a) = (a \<noteq> 0)"
| "truthy NaN = False"

fun finite_num :: "jsnum \<Rightarrow> bool" where
  "finite_num (Num a) = True"
| "finite_num NaN = False"

text \<open>\<open>ToNumber\<close> of an optional number: \<open>undefined\<close> becomes \<open>NaN\<close>.\<close>

fun to_num :: "jsnum option \<Rightarrow> jsnum" where
  "to_num (Some v) = v"
| "to_num None = NaN"

text \<open>\<open>a || b\<close> on an optional number \<open>a\<close>, with \<open>b\<close> a number.\<close>

fun or_num :: "jsnum option \<Rightarrow> jsnum \<Rightarrow> jsnum" where
  "or_num (Some v) d = (if truthy v then v else d)"
| "or_num None d = d"

section \<open>Ring geometry\<close>

text \<open>
  \<open>GraphCanvas\<close>, the layout effect: \<open>centerX = width / 2\<close>, \<open>centerY = height / 2\<close>,
  \<open>maxRadius = Math.min(width, height) / 2 - 60\<close> and the object
  \<open>degreeRadius = {1: maxRadius * 0.3, 2: maxRadius * 0.6, 3: maxRadius * 0.9}\<close>.
  Looking the object up at a key it does not have gives \<open>undefined\<close>.
\<close>

definition centerX :: "real \<Rightarrow> real" where
  "centerX width = width / 2"

definition centerY :: "real \<Rightarrow> real" where
  "centerY height = height / 2"

definition maxRadius :: "real \<Rightarrow> real \<Rightarrow> real" where
  "maxRadius width height = min width height / 2 - 60"

definition degreeRadius :: "real \<Rightarrow> real \<Rightarrow> int \<Rightarrow> jsnum option" where
  "degreeRadius width height degree =
     (if degree = 1 then Some (Num (maxRadius width height * 0.3))
      else if degree = 2 then Some (Num (maxRadius width height * 0.6))
      else if degree = 3 then Some (Num (maxRadius width height * 0.9))
      else None)"

text \<open>
  The object of the same name inside the node builder:
  \<open>degreeRadius = {1: 120, 2: 220, 3: 320}\<close>, read as \<open>degreeRadius[conn.degree] || 150\<close>.
\<close>

definition degreeRadius_seed :: "int \<Rightarrow> jsnum option" where
  "degreeRadius_seed degree =
     (if degree = 1 then Some (Num 120)
      else if degree = 2 then Some (Num 220)
      else if degree = 3 then Some (Num 320)
      else None)"

definition seed_radius :: "int \<Rightarrow> jsnum" where
  "seed_radius degree = or_num (degreeRadius_seed degree) (Num 150)"

section \<open>Data model\<close>

text \<open>
  A connection record of the entity collection (\<open>ConnectionNode\<close>): the fields the layout
  reads. The display fields (name, title, company, heat status) do not reach the
  layout and are left out. \<open>conn_id\<close> is the field \<open>id\<close>; \<open>degree\<close> is a number, whatever the
  data source delivered.
\<close>

record connection =
  conn_id :: string
  degree :: int
  connectedThrough :: "string option"

text \<open>
  A simulation node (\<open>SimNode\<close>): \<open>node_id\<close> is \<open>id\<close>; \<open>nx\<close>, \<open>ny\<close> are the position
  \<open>x\<close>, \<open>y\<close>; \<open>nvx\<close>, \<open>nvy\<close> the velocity \<open>vx\<close>, \<open>vy\<close>; \<open>nfx\<close>, \<open>nfy\<close> the pin \<open>fx\<close>, \<open>fy\<close>.
\<close>

record SimNode =
  node_id :: string
  isUser :: bool
  connection :: "connection option"
  nx :: "jsnum option"
  ny :: "jsnum option"
  nvx :: "jsnum option"
  nvy :: "jsnum option"
  nfx :: "jsnum option"
  nfy :: "jsnum option"

text \<open>An explicit relation of the external edge list, and a link of the simulation.\<close>

record relation =
  rel_source :: string
  rel_target :: string

record SimLink =
  source :: SimNode
  target :: SimNode

text \<open>The Position Store \<open>nodePositionsRef\<close>: a map from node id to \<open>{x, y}\<close>.\<close>

type_synonym position_store = "string \<rightharpoonup> jsnum \<times> jsnum"

text \<open>
  \<open>new Map(entries)\<close>: a later entry with the same key replaces an earlier one.
\<close>

definition js_map :: "('k \<times> 'v) list \<Rightarrow> ('k \<rightharpoonup> 'v)" where
  "js_map entries = map_of (rev entries)"

section \<open>Graph model builder\<close>

definition userNode :: "real \<Rightarrow> real \<Rightarrow> SimNode" where
  "userNode width height =
     \<lparr>node_id = ''USER'', isUser = True, connection = None,
      nx = Some (Num (centerX width)), ny = Some (Num (centerY height)),
      nvx = None, nvy = None,
      nfx = Some (Num (centerX width)), nfy = Some (Num (centerY height))\<rparr>"

definition connById :: "connection list \<Rightarrow> (string \<rightharpoonup> connection)" where
  "connById filteredConnections = js_map (map (\<lambda>c. (conn_id c, c)) filteredConnections)"

definition firstDegree :: "connection list \<Rightarrow> connection list" where
  "firstDegree filteredConnections = filter (\<lambda>c. degree c = 1) filteredConnections"

text \<open>
  \<open>firstDegree.forEach((conn, i) => angleByFirstDegree.set(conn.id,
  (i / firstDegree.length) * Math.PI * 2))\<close>. The loop body runs only when
  \<open>firstDegree\<close> is not empty, so the division is by a positive length.
\<close>

definition angleByFirstDegree :: "connection list \<Rightarrow> (string \<rightharpoonup> jsnum)" where
  "angleByFirstDegree filteredConnections =
     (let fd = firstDegree filteredConnections in
      js_map (map (\<lambda>(i, c). (conn_id c, Num (real i / real (length fd) * pi * 2)))
                  (enumerate 0 fd)))"

text \<open>A string used as a condition: \<open>undefined\<close> and the empty string are falsy.\<close>

fun str_truthy :: "string option \<Rightarrow> bool" where
  "str_truthy None = False"
| "str_truthy (Some s) = (s \<noteq> [])"

text \<open>
  The seed angle of one connection. Every path of the source calls \<open>Math.random()\<close> at
  most once; \<open>r\<close> is the value that call returns, and the second component says how many
  calls were made (\<open>||\<close> evaluates its right operand only when the left one is falsy).
\<close>

definition seed_angle :: "connection list \<Rightarrow> connection \<Rightarrow> real \<Rightarrow> jsnum \<times> nat" where
  "seed_angle filteredConnections conn r =
     (if degree conn = 1 then
        (case angleByFirstDegree filteredConnections (conn_id conn) of
           Some a \<Rightarrow> if truthy a then (a, 0) else (Num (r * pi * 2), 1)
         | None \<Rightarrow> (Num (r * pi * 2), 1))
      else if str_truthy (connectedThrough conn) then
        (case connById filteredConnections (the (connectedThrough conn)) of
           None \<Rightarrow> (Num (r * pi * 2), 1)
         | Some parent \<Rightarrow>
             if degree parent = 1 then
               (jadd (or_num (angleByFirstDegree filteredConnections (conn_id parent)) (Num 0))
                     (Num ((r - 0.5) * 0.5)), 1)
             else if str_truthy (connectedThrough parent) then
               (let grandparent = connById filteredConnections (the (connectedThrough parent));
                    key = (case grandparent of None \<Rightarrow> [] | Some g \<Rightarrow> conn_id g)
                in (jadd (or_num (angleByFirstDegree filteredConnections key) (Num 0))
                         (Num ((r - 0.5) * 0.7)), 1))
             else (Num (r * pi * 2), 1))
      else (Num (r * pi * 2), 1))"

text \<open>
  The node built for one connection: \<open>x: savedPos?.x ?? centerX + Math.cos(angle) * radius\<close>
  and the same for \<open>y\<close> with \<open>Math.sin\<close>.
\<close>

definition connectionNode ::
  "position_store \<Rightarrow> real \<Rightarrow> real \<Rightarrow> connection \<Rightarrow> jsnum \<Rightarrow> SimNode" where
  "connectionNode store width height conn angle =
     (let savedPos = store (conn_id conn);
          radius = seed_radius (degree conn)
      in \<lparr>node_id = conn_id conn, isUser = False, connection = Some conn,
          nx = Some (case savedPos of
                       Some p \<Rightarrow> fst p
                     | None \<Rightarrow> jadd (Num (centerX width)) (jmul (jcos angle) radius)),
          ny = Some (case savedPos of
                       Some p \<Rightarrow> snd p
                     | None \<Rightarrow> jadd (Num (centerY height)) (jmul (jsin angle) radius)),
          nvx = None, nvy = None, nfx = None, nfy = None\<rparr>)"

text \<open>
  \<open>filteredConnections.map(...)\<close>, one connection after the other; \<open>random\<close> is the
  sequence of values \<open>Math.random()\<close> returns and \<open>k\<close> counts the calls made so far.
\<close>

fun build_nodes ::
  "connection list \<Rightarrow> position_store \<Rightarrow> real \<Rightarrow> real \<Rightarrow> (nat \<Rightarrow> real) \<Rightarrow> nat \<Rightarrow>
   connection list \<Rightarrow> SimNode list" where
  "build_nodes filteredConnections store width height random k [] = []"
| "build_nodes filteredConnections store width height random k (conn # rest) =
     (let (angle, calls) = seed_angle filteredConnections conn (random k)
      in connectionNode store width height conn angle #
         build_nodes filteredConnections store width height random (k + calls) rest)"

definition connectionNodes ::
  "connection list \<Rightarrow> position_store \<Rightarrow> real \<Rightarrow> real \<Rightarrow> (nat \<Rightarrow> real) \<Rightarrow> SimNode list" where
  "connectionNodes filteredConnections store width height random =
     build_nodes filteredConnections store width height random 0 filteredConnections"

text \<open>
  The links: one from the user node to every node of degree 1, then one for every
  relation whose two ids \<open>nodeById\<close> knows (\<open>if (source && target)\<close>).
\<close>

definition nodeById :: "SimNode list \<Rightarrow> (string \<rightharpoonup> SimNode)" where
  "nodeById nodes = js_map (map (\<lambda>n. (node_id n, n)) nodes)"

definition is_first_degree :: "SimNode \<Rightarrow> bool" where
  "is_first_degree node = (case connection node of None \<Rightarrow> False | Some c \<Rightarrow> degree c = 1)"

definition explicit_link :: "(string \<rightharpoonup> SimNode) \<Rightarrow> relation \<Rightarrow> SimLink list" where
  "explicit_link byId link =
     (case byId (rel_source link) of
        None \<Rightarrow> []
      | Some s \<Rightarrow>
          (case byId (rel_target link) of
             None \<Rightarrow> []
           | Some t \<Rightarrow> [\<lparr>source = s, target = t\<rparr>]))"

definition simLinks :: "SimNode \<Rightarrow> SimNode list \<Rightarrow> relation list \<Rightarrow> SimLink list" where
  "simLinks user nodes_c links =
     map (\<lambda>n. \<lparr>source = user, target = n\<rparr>) (filter is_first_degree nodes_c) @
     concat (map (explicit_link (nodeById (user # nodes_c))) links)"

section \<open>Radial force\<close>

text \<open>
  The custom force \<open>radialForce(alpha)\<close> runs over \<open>connectionNodes\<close>. For one node with
  a connection and a defined position it computes
  \<open>dist = Math.sqrt(dx * dx + dy * dy) || 1\<close>, \<open>diff = targetRadius - dist\<close>,
  \<open>strength = alpha * 0.15\<close> and adds \<open>(dx / dist) * diff * strength\<close> to \<open>vx\<close> (and the
  same with \<open>dy\<close> to \<open>vy\<close>). \<open>targetRadius = degreeRadius[degree]\<close> has no fallback.
\<close>

definition radial_dist :: "real \<Rightarrow> real \<Rightarrow> jsnum \<Rightarrow> jsnum \<Rightarrow> jsnum" where
  "radial_dist width height x y =
     (let dx = jsub x (Num (centerX width));
          dy = jsub y (Num (centerY height))
      in or_num (Some (jsqrt (jadd (jmul dx dx) (jmul dy dy)))) (Num 1))"

definition radial_increment ::
  "real \<Rightarrow> real \<Rightarrow> real \<Rightarrow> int \<Rightarrow> jsnum \<Rightarrow> jsnum \<Rightarrow> jsnum \<times> jsnum" where
  "radial_increment width height alpha deg x y =
     (let targetRadius = to_num (degreeRadius width height deg);
          dx = jsub x (Num (centerX width));
          dy = jsub y (Num (centerY height));
          dist = radial_dist width height x y;
          diff = jsub targetRadius dist;
          strength = Num (alpha * 0.15)
      in (jmul (jmul (jdiv dx dist) diff) strength,
          jmul (jmul (jdiv dy dist) diff) strength))"

definition radial_node :: "real \<Rightarrow> real \<Rightarrow> real \<Rightarrow> SimNode \<Rightarrow> SimNode" where
  "radial_node width height alpha node =
     (case connection node of
        None \<Rightarrow> node
      | Some conn \<Rightarrow>
          (case nx node of
             None \<Rightarrow> node
           | Some x \<Rightarrow>
               (case ny node of
                  None \<Rightarrow> node
                | Some y \<Rightarrow>
                    (let inc = radial_increment width height alpha (degree conn) x y
                     in node\<lparr>nvx := Some (jadd (or_num (nvx node) (Num 0)) (fst inc)),
                             nvy := Some (jadd (or_num (nvy node) (Num 0)) (snd inc))\<rparr>))))"

definition radialForce :: "real \<Rightarrow> real \<Rightarrow> real \<Rightarrow> SimNode list \<Rightarrow> SimNode list" where
  "radialForce width height alpha nodes_c = map (radial_node width height alpha) nodes_c"

section \<open>Simulation and interaction\<close>

text \<open>
  The state of one mounted graph view: the node objects (\<open>nodes = [userNode,
  ...connectionNodes]\<close>, the two arrays share the objects), the simulation's \<open>alpha\<close> and
  \<open>alphaTarget\<close>, the Position Store, the selection held by the connections context and
  the viewport of the running effect.
\<close>

record view =
  v_userNode :: SimNode
  v_connectionNodes :: "SimNode list"
  v_alpha :: real
  v_alphaTarget :: real
  v_store :: position_store
  v_selected :: "connection option"
  v_width :: real
  v_height :: real

definition nodes :: "view \<Rightarrow> SimNode list" where
  "nodes s = v_userNode s # v_connectionNodes s"

text \<open>
  The forces of the d3 library that the view installs next to its own (link,
  many-body, collision) are not part of the repository. They write the velocities of
  the nodes only, so they are a parameter: the velocity \<open>(vx, vy)\<close> they leave in node
  \<open>i\<close>, given \<open>alpha\<close> and the nodes.
\<close>

type_synonym library_forces = "real \<Rightarrow> SimNode list \<Rightarrow> nat \<Rightarrow> jsnum \<times> jsnum"

definition set_velocity :: "jsnum \<times> jsnum \<Rightarrow> SimNode \<Rightarrow> SimNode" where
  "set_velocity v node = node\<lparr>nvx := Some (fst v), nvy := Some (snd v)\<rparr>"

text \<open>\<open>isNaN\<close> of an optional number: true for \<open>undefined\<close> and for \<open>NaN\<close>.\<close>

definition is_nan :: "jsnum option \<Rightarrow> bool" where
  "is_nan v = (\<not> finite_num (to_num v))"

text \<open>
  Modelled from the spec: the node initialisation of the d3 force simulation
  (\<open>d3.forceSimulation(nodes)\<close>), which the repository calls and does not contain. A
  pinned coordinate (\<open>fx\<close>, \<open>fy\<close> present) is copied to the position, a node without a
  position is placed on a spiral by its index, and a missing velocity becomes zero.
\<close>

definition initialize_node :: "nat \<Rightarrow> SimNode \<Rightarrow> SimNode" where
  "initialize_node i node =
     (let n1 = (case nfx node of None \<Rightarrow> node | Some f \<Rightarrow> node\<lparr>nx := Some f\<rparr>);
          n2 = (case nfy n1 of None \<Rightarrow> n1 | Some f \<Rightarrow> n1\<lparr>ny := Some f\<rparr>);
          n3 = (if is_nan (nx n2) \<or> is_nan (ny n2)
                then n2\<lparr>nx := Some (Num (10 * sqrt (0.5 + real i) * cos (real i * (pi * (3 - sqrt 5))))),
                        ny := Some (Num (10 * sqrt (0.5 + real i) * sin (real i * (pi * (3 - sqrt 5)))))\<rparr>
                else n2)
      in if is_nan (nvx n3) \<or> is_nan (nvy n3)
         then n3\<lparr>nvx := Some (Num 0), nvy := Some (Num 0)\<rparr>
         else n3)"

text \<open>
  Modelled from the spec: the position update of the d3 force simulation at the end
  of a tick, which the repository calls and does not contain. The simulation does not
  move a pinned node: a pinned coordinate is copied to the position and its velocity
  is reset; a free coordinate moves by its velocity, damped by
  \<open>1 - velocityDecay = 0.6\<close> (the view sets \<open>velocityDecay(0.4)\<close>).
\<close>

definition integrate :: "SimNode \<Rightarrow> SimNode" where
  "integrate node =
     (let n1 = (case nfx node of
                  None \<Rightarrow> (let v = jmul (to_num (nvx node)) (Num 0.6)
                            in node\<lparr>nx := Some (jadd (to_num (nx node)) v), nvx := Some v\<rparr>)
                | Some f \<Rightarrow> node\<lparr>nx := Some f, nvx := Some (Num 0)\<rparr>)
      in (case nfy n1 of
            None \<Rightarrow> (let v = jmul (to_num (nvy n1)) (Num 0.6)
                      in n1\<lparr>ny := Some (jadd (to_num (ny n1)) v), nvy := Some v\<rparr>)
          | Some f \<Rightarrow> n1\<lparr>ny := Some f, nvy := Some (Num 0)\<rparr>))"

text \<open>
  Modelled from the spec: one \<open>simulation.tick()\<close> of the d3 force simulation with the
  view's settings (\<open>alphaDecay(0.03)\<close>). \<open>alpha\<close> moves towards \<open>alphaTarget\<close>; the
  forces run in the order the view installs them, its own radial force over
  \<open>connectionNodes\<close> first, then the library's forces over all nodes; then every node is
  moved.
\<close>

definition simulation_tick :: "library_forces \<Rightarrow> view \<Rightarrow> view" where
  "simulation_tick lib s =
     (let alpha = v_alpha s + (v_alphaTarget s - v_alpha s) * 0.03;
          cns = radialForce (v_width s) (v_height s) alpha (v_connectionNodes s);
          vel = lib alpha (v_userNode s # cns)
      in s\<lparr>v_userNode := integrate (set_velocity (vel 0) (v_userNode s)),
            v_connectionNodes :=
              map (\<lambda>(i, n). integrate (set_velocity (vel i) n)) (enumerate 1 cns),
            v_alpha := alpha\<rparr>)"

text \<open>
  The \<open>tick\<close> listener saves the positions:
  \<open>nodes.forEach(node => { if (!node.isUser && node.x !== undefined && node.y !== undefined)
  nodePositionsRef.current.set(node.id, {x: node.x, y: node.y}) })\<close>.
\<close>

definition save_position :: "SimNode \<Rightarrow> position_store \<Rightarrow> position_store" where
  "save_position node store =
     (if isUser node then store
      else (case nx node of
              None \<Rightarrow> store
            | Some x \<Rightarrow>
                (case ny node of
                   None \<Rightarrow> store
                 | Some y \<Rightarrow> store(node_id node \<mapsto> (x, y)))))"

definition tick_listener :: "SimNode list \<Rightarrow> position_store \<Rightarrow> position_store" where
  "tick_listener ns store = fold save_position ns store"

text \<open>
  The drag handlers of \<open>d3.drag()\<close>, on the node \<open>d\<close> under the pointer; each returns at
  once for the user node.
\<close>

definition drag_start :: "SimNode \<Rightarrow> SimNode" where
  "drag_start d = (if isUser d then d else d\<lparr>nfx := nx d, nfy := ny d\<rparr>)"

definition drag_move :: "jsnum \<Rightarrow> jsnum \<Rightarrow> SimNode \<Rightarrow> SimNode" where
  "drag_move ex ey d = (if isUser d then d else d\<lparr>nfx := Some ex, nfy := Some ey\<rparr>)"

definition drag_end :: "SimNode \<Rightarrow> SimNode" where
  "drag_end d = (if isUser d then d else d\<lparr>nfx := None, nfy := None\<rparr>)"

text \<open>
  Modelled from the spec: \<open>selectConnection\<close> of the connections context, which the view
  calls and the sources do not contain. By the spec a click on a leaf node toggles it
  as the selected node (a click again or a click on the background clears the
  selection): handing over the connection that is selected clears the selection,
  handing over another connection selects it, handing over none clears the selection.
  The selected connection is recognised by its id, as the view recognises it for the
  highlight (\<open>selectedConnection?.id === d.id\<close>).
\<close>

definition selectConnection :: "connection option \<Rightarrow> view \<Rightarrow> view" where
  "selectConnection c s =
     (case c of
        None \<Rightarrow> s\<lparr>v_selected := None\<rparr>
      | Some conn \<Rightarrow>
          (case v_selected s of
             None \<Rightarrow> s\<lparr>v_selected := Some conn\<rparr>
           | Some current \<Rightarrow>
               if conn_id current = conn_id conn then s\<lparr>v_selected := None\<rparr>
               else s\<lparr>v_selected := Some conn\<rparr>))"

text \<open>
  What can happen to a mounted view. A pointer event names the node it hits by its
  index in \<open>nodes\<close> (index 0 is the user node); \<open>active\<close> is \<open>event.active\<close> read as a
  condition. Hovering a node and zooming change the drawing (circle radius, link
  strokes, the transform of the container) and nothing of the state.
\<close>

datatype event =
    Tick
  | DragStart nat bool
  | Drag nat jsnum jsnum
  | DragEnd nat bool
  | ClickNode nat
  | ClickBackground
  | MouseEnter nat
  | MouseLeave nat
  | Zoom

definition node_at :: "view \<Rightarrow> nat \<Rightarrow> SimNode option" where
  "node_at s i = (if i < length (nodes s) then Some (nodes s ! i) else None)"

definition update_node :: "nat \<Rightarrow> (SimNode \<Rightarrow> SimNode) \<Rightarrow> view \<Rightarrow> view" where
  "update_node i g s =
     (case i of
        0 \<Rightarrow> s\<lparr>v_userNode := g (v_userNode s)\<rparr>
      | Suc j \<Rightarrow>
          (if j < length (v_connectionNodes s)
           then s\<lparr>v_connectionNodes := (v_connectionNodes s)[j := g (v_connectionNodes s ! j)]\<rparr>
           else s))"

text \<open>
  A click on the background runs the handler of the \<open>svg\<close> element. A click on a node
  runs the node's handler first; for the user node that handler returns before
  \<open>event.stopPropagation()\<close>, so the event reaches the \<open>svg\<close> handler as well.
\<close>

definition click_background :: "view \<Rightarrow> view" where
  "click_background s = selectConnection None s"

definition click_node :: "SimNode \<Rightarrow> view \<Rightarrow> view" where
  "click_node d s = (if isUser d then click_background s else selectConnection (connection d) s)"

fun step :: "library_forces \<Rightarrow> event \<Rightarrow> view \<Rightarrow> view" where
  "step lib Tick s =
     (let s1 = simulation_tick lib s in s1\<lparr>v_store := tick_listener (nodes s1) (v_store s1)\<rparr>)"
| "step lib (DragStart i active) s =
     (case node_at s i of
        None \<Rightarrow> s
      | Some d \<Rightarrow>
          (let s1 = (if \<not> isUser d \<and> \<not> active then s\<lparr>v_alphaTarget := 0.3\<rparr> else s)
           in update_node i drag_start s1))"
| "step lib (Drag i ex ey) s = update_node i (drag_move ex ey) s"
| "step lib (DragEnd i active) s =
     (case node_at s i of
        None \<Rightarrow> s
      | Some d \<Rightarrow>
          (let s1 = (if \<not> isUser d \<and> \<not> active then s\<lparr>v_alphaTarget := 0\<rparr> else s)
           in update_node i drag_end s1))"
| "step lib (ClickNode i) s = (case node_at s i of None \<Rightarrow> s | Some d \<Rightarrow> click_node d s)"
| "step lib ClickBackground s = click_background s"
| "step lib (MouseEnter i) s = s"
| "step lib (MouseLeave i) s = s"
| "step lib Zoom s = s"

fun run :: "library_forces \<Rightarrow> view \<Rightarrow> event list \<Rightarrow> view" where
  "run lib s [] = s"
| "run lib s (e # es) = run lib (step lib e s) es"

text \<open>
  The layout effect: build the nodes from the collection and the Position Store,
  create the simulation (\<open>alpha(0.3)\<close>, \<open>alphaTarget(0)\<close>), run 100 ticks before the
  first paint (no listener is registered yet), then \<open>alpha(0.1)\<close>.
\<close>

definition mount ::
  "library_forces \<Rightarrow> connection list \<Rightarrow> real \<Rightarrow> real \<Rightarrow> (nat \<Rightarrow> real) \<Rightarrow>
   position_store \<Rightarrow> connection option \<Rightarrow> view" where
  "mount lib filteredConnections width height random store selected =
     (let cns = connectionNodes filteredConnections store width height random;
          s0 = \<lparr>v_userNode = initialize_node 0 (userNode width height),
                v_connectionNodes = map (\<lambda>(i, n). initialize_node i n) (enumerate 1 cns),
                v_alpha = 0.3, v_alphaTarget = 0, v_store = store, v_selected = selected,
                v_width = width, v_height = height\<rparr>
      in ((simulation_tick lib ^^ 100) s0)\<lparr>v_alpha := 0.1\<rparr>)"

section \<open>Email category overview\<close>

text \<open>
  \<open>EmailNodeGraph\<close> groups the analysed emails by the category of their sender. Of an
  email only the fields the grouping reads are kept. Strings are byte strings: the
  letters that change case are the ASCII letters and white space is the ASCII white
  space.
\<close>

record AnalyzedEmail =
  email_id :: string
  email_from :: string

text \<open>White space (\<open>\s\<close>, \<open>trim\<close>), \<open>toLowerCase\<close> and \<open>toUpperCase\<close>.\<close>

definition is_space :: "char \<Rightarrow> bool" where
  "is_space c = (c \<in> set [CHR '' '', CHR 0x09, CHR 0x0A, CHR 0x0B, CHR 0x0C, CHR 0x0D])"

definition lower_char :: "char \<Rightarrow> char" where
  "lower_char c =
     (case map_of (zip ''ABCDEFGHIJKLMNOPQRSTUVWXYZ'' ''abcdefghijklmnopqrstuvwxyz'') c of
        Some l \<Rightarrow> l
      | None \<Rightarrow> c)"

definition upper_char :: "char \<Rightarrow> char" where
  "upper_char c =
     (case map_of (zip ''abcdefghijklmnopqrstuvwxyz'' ''ABCDEFGHIJKLMNOPQRSTUVWXYZ'') c of
        Some u \<Rightarrow> u
      | None \<Rightarrow> c)"

definition toLowerCase :: "string \<Rightarrow> string" where
  "toLowerCase s = map lower_char s"

definition trim :: "string \<Rightarrow> string" where
  "trim s = rev (dropWhile is_space (rev (dropWhile is_space s)))"

text \<open>
  \<open>from.match(/<([^>]+)>/)\<close>: the text between the leftmost \<open><\<close> that is followed by
  at least one character other than \<open>>\<close> and then by \<open>>\<close>.
  \<open>email.match(/@([^.]+)/)\<close>: the longest run without a dot after the leftmost \<open>@\<close>
  that has such a run. \<open>match(/^([^<]+)/)\<close> and \<open>match(/^([^\s<]+)/)\<close>: the longest
  prefix of allowed characters, when it is not empty.
\<close>

fun match_angle :: "string \<Rightarrow> string option" where
  "match_angle [] = None"
| "match_angle (c # cs) =
     (if c = CHR ''<'' \<and> takeWhile (\<lambda>x. x \<noteq> CHR ''>'') cs \<noteq> [] \<and>
         dropWhile (\<lambda>x. x \<noteq> CHR ''>'') cs \<noteq> []
      then Some (takeWhile (\<lambda>x. x \<noteq> CHR ''>'') cs)
      else match_angle cs)"

fun match_domain :: "string \<Rightarrow> string option" where
  "match_domain [] = None"
| "match_domain (c # cs) =
     (if c = CHR ''@'' \<and> takeWhile (\<lambda>x. x \<noteq> CHR ''.'') cs \<noteq> []
      then Some (takeWhile (\<lambda>x. x \<noteq> CHR ''.'') cs)
      else match_domain cs)"

definition match_prefix :: "(char \<Rightarrow> bool) \<Rightarrow> string \<Rightarrow> string option" where
  "match_prefix ok s = (if takeWhile ok s = [] then None else Some (takeWhile ok s))"

text \<open>\<open>domain.charAt(0).toUpperCase() + domain.slice(1)\<close>.\<close>

definition capitalize :: "string \<Rightarrow> string" where
  "capitalize s = (case s of [] \<Rightarrow> [] | c # cs \<Rightarrow> upper_char c # cs)"

definition extractCategory :: "string \<Rightarrow> string" where
  "extractCategory from =
     (let email = (case match_angle from of Some e \<Rightarrow> e | None \<Rightarrow> from) in
      case match_domain email of
        Some d \<Rightarrow>
          (let domain = toLowerCase d in
           if domain \<in> set [''gmail'', ''yahoo'', ''outlook'', ''hotmail'']
           then (case match_prefix (\<lambda>x. x \<noteq> CHR ''<'') from of
                   Some name \<Rightarrow> takeWhile (\<lambda>x. x \<noteq> CHR '' '') (trim name)
                 | None \<Rightarrow> ''Personal'')
           else capitalize domain)
      | None \<Rightarrow>
          (case match_prefix (\<lambda>x. \<not> is_space x \<and> x \<noteq> CHR ''<'') from of
             Some name \<Rightarrow> name
           | None \<Rightarrow> ''Unknown''))"

text \<open>
  The \<open>Map\<close> from category to emails keeps its keys in the order of first insertion:
  an association list, a new key at the end, a known key extended in place.
\<close>

type_synonym category_map = "(string \<times> AnalyzedEmail list) list"

fun push_email :: "string \<Rightarrow> AnalyzedEmail \<Rightarrow> category_map \<Rightarrow> category_map" where
  "push_email category email [] = [(category, [email])]"
| "push_email category email ((k, es) # rest) =
     (if k = category then (k, es @ [email]) # rest
      else (k, es) # push_email category email rest)"

definition categoryMap :: "AnalyzedEmail list \<Rightarrow> category_map" where
  "categoryMap emails =
     fold (\<lambda>email m. push_email (extractCategory (email_from email)) email m) emails []"

definition CATEGORY_COLORS :: "string list" where
  "CATEGORY_COLORS =
     [''#bf5af2'', ''#ff6b6b'', ''#ffc078'', ''#74c0fc'',
      ''#63e6be'', ''#ffd43b'', ''#ff922b'', ''#da77f2'']"

definition getCategoryColor :: "nat \<Rightarrow> string" where
  "getCategoryColor index = CATEGORY_COLORS ! (index mod length CATEGORY_COLORS)"

text \<open>
  \<open>replace(/\s+/g, '-')\<close>: every maximal run of white space becomes one dash;
  \<open>in_run\<close> says that the previous character was white space.
\<close>

fun dash_spaces :: "bool \<Rightarrow> string \<Rightarrow> string" where
  "dash_spaces in_run [] = []"
| "dash_spaces in_run (c # cs) =
     (if is_space c then (if in_run then dash_spaces True cs else CHR ''-'' # dash_spaces True cs)
      else c # dash_spaces False cs)"

record category =
  cat_id :: string
  cat_label :: string
  cat_emails :: "AnalyzedEmail list"
  cat_count :: nat
  cat_color :: string

text \<open>
  \<open>Array.from(categoryMap.entries()).sort((a, b) => b[1].length - a[1].length)\<close>: a
  stable sort by descending number of emails. Then \<open>.slice(0, 8)\<close> and the mapping to
  category objects, the colour chosen by the index.
\<close>

definition sorted_entries :: "AnalyzedEmail list \<Rightarrow> category_map" where
  "sorted_entries emails = sort_key (\<lambda>entry. - int (length (snd entry))) (categoryMap emails)"

definition categories :: "AnalyzedEmail list \<Rightarrow> category list" where
  "categories emails =
     map (\<lambda>(index, (label, emailList)).
            \<lparr>cat_id = dash_spaces False (toLowerCase label), cat_label = label,
             cat_emails = emailList, cat_count = length emailList,
             cat_color = getCategoryColor index\<rparr>)
         (enumerate 0 (take 8 (sorted_entries emails)))"

text \<open>
  The nodes of the category view, one per category, placed on a circle of radius 120
  at the angle \<open>(i / categories.length) * Math.PI * 2\<close>.
\<close>

record category_node =
  cn_id :: string
  cn_category :: string
  cn_count :: nat
  cn_emails :: "AnalyzedEmail list"
  cn_color :: string
  cn_x :: jsnum
  cn_y :: jsnum

definition categoryNodes :: "category list \<Rightarrow> real \<Rightarrow> real \<Rightarrow> category_node list" where
  "categoryNodes cats width height =
     map (\<lambda>(i, cat).
            (let angle = Num (real i / real (length cats) * pi * 2);
                 radius = Num 120
             in \<lparr>cn_id = cat_id cat, cn_category = cat_label cat, cn_count = cat_count cat,
                 cn_emails = cat_emails cat, cn_color = cat_color cat,
                 cn_x = jadd (Num (centerX width)) (jmul (jcos angle) radius),
                 cn_y = jadd (Num (centerY height)) (jmul (jsin angle) radius)\<rparr>))
         (enumerate 0 cats)"

section \<open>Notions used in the statements\<close>

text \<open>The category key of an email.\<close>

definition key_of :: "AnalyzedEmail \<Rightarrow> string" where
  "key_of email = extractCategory (email_from email)"

text \<open>
  A category map groups a list of emails when its keys are distinct, are exactly the
  categories of the emails, and every key holds the emails of that category in their
  order.
\<close>

definition grouped :: "category_map \<Rightarrow> AnalyzedEmail list \<Rightarrow> bool" where
  "grouped m emails =
     (distinct (map fst m) \<and> fst ` set m = key_of ` set emails \<and>
      (\<forall>k. k \<in> fst ` set m \<longrightarrow>
           map_of m k = Some (filter (\<lambda>e. key_of e = k) emails)))"

text \<open>A relation is known to a node list when both of its ids belong to nodes.\<close>

definition known :: "SimNode list \<Rightarrow> relation \<Rightarrow> bool" where
  "known ns r = (rel_source r \<in> node_id ` set ns \<and> rel_target r \<in> node_id ` set ns)"

definition link_ids :: "SimLink \<Rightarrow> string \<times> string" where
  "link_ids l = (node_id (source l), node_id (target l))"

definition relation_ids :: "relation \<Rightarrow> string \<times> string" where
  "relation_ids r = (rel_source r, rel_target r)"

text \<open>
  The user node of a view is in place when it is marked as the user node and its
  position and its pin are the centre of the view's viewport.
\<close>

definition anchor_ok :: "view \<Rightarrow> bool" where
  "anchor_ok s =
     (isUser (v_userNode s) \<and>
      nx (v_userNode s) = Some (Num (centerX (v_width s))) \<and>
      ny (v_userNode s) = Some (Num (centerY (v_height s))) \<and>
      nfx (v_userNode s) = Some (Num (centerX (v_width s))) \<and>
      nfy (v_userNode s) = Some (Num (centerY (v_height s))))"

text \<open>The part of a node that neither forces nor pointer events change.\<close>

definition shape :: "SimNode \<Rightarrow> string \<times> bool \<times> connection option" where
  "shape n = (node_id n, isUser n, connection n)"

text \<open>
  A view is well shaped for a collection when its connection nodes are, in order, the
  nodes of the collection's connections and its user node is the node \<open>USER\<close>.
\<close>

definition well_shaped :: "connection list \<Rightarrow> view \<Rightarrow> bool" where
  "well_shaped conns s =
     (map shape (v_connectionNodes s) = map (\<lambda>c. (conn_id c, False, Some c)) conns \<and>
      shape (v_userNode s) = (''USER'', True, None))"

section \<open>Example data\<close>

definition example_a :: connection where
  "example_a = \<lparr>conn_id = ''a'', degree = 1, connectedThrough = None\<rparr>"

definition example_b :: connection where
  "example_b = \<lparr>conn_id = ''b'', degree = 2, connectedThrough = Some ''a''\<rparr>"

definition example_c :: connection where
  "example_c = \<lparr>conn_id = ''c'', degree = 1, connectedThrough = None\<rparr>"

definition example_d :: connection where
  "example_d = \<lparr>conn_id = ''d'', degree = 4, connectedThrough = None\<rparr>"

text \<open>Two sequences of random numbers: always a quarter, always a half.\<close>

definition random_quarter :: "nat \<Rightarrow> real" where
  "random_quarter k = 1 / 4"

definition random_half :: "nat \<Rightarrow> real" where
  "random_half k = 1 / 2"

text \<open>Library forces that leave every velocity as it is.\<close>

definition no_library_forces :: library_forces where
  "no_library_forces alpha ns i = (to_num (nvx (ns ! i)), to_num (nvy (ns ! i)))"

text \<open>A node of the unknown degree 4 at its seed position.\<close>

definition example_node_d :: SimNode where
  "example_node_d = connectionNode Map.empty 800 600 example_d (Num 0)"

definition example_relations :: "relation list" where
  "example_relations =
     [\<lparr>rel_source = ''a'', rel_target = ''b''\<rparr>, \<lparr>rel_source = ''a'', rel_target = ''zz''\<rparr>]"

text \<open>Ten emails of nine sender categories; the last two share one.\<close>

definition example_emails :: "AnalyzedEmail list" where
  "example_emails =
     [\<lparr>email_id = ''1'', email_from = ''John Doe <john@gmail.com>''\<rparr>,
      \<lparr>email_id = ''2'', email_from = ''GitHub <noreply@github.com>''\<rparr>,
      \<lparr>email_id = ''3'', email_from = ''c@gamma.com''\<rparr>,
      \<lparr>email_id = ''4'', email_from = ''d@delta.com''\<rparr>,
      \<lparr>email_id = ''5'', email_from = ''e@epsilon.com''\<rparr>,
      \<lparr>email_id = ''6'', email_from = ''f@zeta.com''\<rparr>,
      \<lparr>email_id = ''7'', email_from = ''g@eta.com''\<rparr>,
      \<lparr>email_id = ''8'', email_from = ''h@theta.com''\<rparr>,
      \<lparr>email_id = ''9'', email_from = ''i@iota.com''\<rparr>,
      \<lparr>email_id = ''10'', email_from = ''j@iota.com''\<rparr>]"

section \<open>Basic facts about JavaScript numbers\<close>

lemma jmul_NaN_right [simp]: "jmul v NaN = NaN"
  by (cases v) simp_all

lemma jadd_NaN_right [simp]: "jadd v NaN = NaN"
  by (cases v) simp_all

lemma jsub_NaN_left [simp]: "jsub NaN v = NaN"
  by simp

lemma map_snd_enumerate_fun: "map (\<lambda>p. g (snd p)) (enumerate k ns) = map g ns"
  by (induction ns arbitrary: k) simp_all

lemmas example_defs =
  example_a_def example_b_def example_c_def example_d_def random_quarter_def random_half_def
  example_node_d_def example_relations_def

lemmas builder_defs =
  connectionNodes_def seed_angle_def angleByFirstDegree_def firstDegree_def connById_def
  js_map_def connectionNode_def seed_radius_def degreeRadius_seed_def centerX_def
  centerY_def

section \<open>Ring monotonicity\<close>

text \<open>
  C5. For a viewport with \<open>min(width, height) > 120\<close> the target ring radii of the
  levels 1, 2 and 3 are defined, strictly increasing in the level, and the radius of
  level 3 is at most \<open>min(width, height) / 2 - 60\<close>.
\<close>

theorem ring_monotonicity:
  assumes "120 < min width height"
  shows "\<exists>r1 r2 r3.
           degreeRadius width height 1 = Some (Num r1) \<and>
           degreeRadius width height 2 = Some (Num r2) \<and>
           degreeRadius width height 3 = Some (Num r3) \<and>
           r1 < r2 \<and> r2 < r3 \<and> r3 \<le> min width height / 2 - 60"
proof -
  let ?m = "maxRadius width height"
  have pos: "0 < ?m"
    using assms by (simp add: maxRadius_def)
  have r1: "degreeRadius width height 1 = Some (Num (?m * 0.3))"
    by (simp add: degreeRadius_def)
  have r2: "degreeRadius width height 2 = Some (Num (?m * 0.6))"
    by (simp add: degreeRadius_def)
  have r3: "degreeRadius width height 3 = Some (Num (?m * 0.9))"
    by (simp add: degreeRadius_def)
  have lt12: "?m * 0.3 < ?m * 0.6" and lt23: "?m * 0.6 < ?m * 0.9"
    using pos by simp_all
  have "?m * 0.9 \<le> ?m"
    using pos by simp
  then have le3: "?m * 0.9 \<le> min width height / 2 - 60"
    by (simp only: maxRadius_def)
  from r1 r2 r3 lt12 lt23 le3 show ?thesis
    by blast
qed

theorem ring_monotonicity_witness:
  "(120::real) < min 800 600 \<and>
   degreeRadius 800 600 1 = Some (Num 72) \<and>
   degreeRadius 800 600 2 = Some (Num 144) \<and>
   degreeRadius 800 600 3 = Some (Num 216) \<and>
   (216::real) \<le> min 800 600 / 2 - 60"
  using ring_monotonicity [of 800 600]
  by (simp add: degreeRadius_def maxRadius_def)

section \<open>Rebuilding from the Position Store\<close>

lemma build_nodes_Cons:
  "build_nodes all store w h rnd k (c # cs) =
     connectionNode store w h c (fst (seed_angle all c (rnd k))) #
     build_nodes all store w h rnd (k + snd (seed_angle all c (rnd k))) cs"
  by (simp add: case_prod_beta)

lemma connectionNode_fields:
  "node_id (connectionNode store w h c a) = conn_id c"
  "isUser (connectionNode store w h c a) = False"
  "connection (connectionNode store w h c a) = Some c"
  by (simp_all add: connectionNode_def Let_def)

lemma connectionNode_stored:
  "store (conn_id c) = Some p \<Longrightarrow>
   nx (connectionNode store w h c a) = Some (fst p) \<and>
   ny (connectionNode store w h c a) = Some (snd p)"
  by (simp add: connectionNode_def Let_def)

lemma build_nodes_stored:
  "n \<in> set (build_nodes all store w h rnd k cs) \<Longrightarrow> store (node_id n) = Some p \<Longrightarrow>
   nx n = Some (fst p) \<and> ny n = Some (snd p)"
proof (induction cs arbitrary: k)
  case Nil
  then show ?case by simp
next
  case (Cons c cs)
  from Cons.prems(1) consider
      "n = connectionNode store w h c (fst (seed_angle all c (rnd k)))"
    | "n \<in> set (build_nodes all store w h rnd (k + snd (seed_angle all c (rnd k))) cs)"
    by (auto simp add: build_nodes_Cons simp del: build_nodes.simps(2))
  then show ?case
  proof cases
    case 1
    with Cons.prems(2) show ?thesis
      using connectionNode_stored[of store c p w h] by (simp add: connectionNode_fields)
  next
    case 2
    from Cons.IH[OF 2 Cons.prems(2)] show ?thesis .
  qed
qed

lemma build_nodes_ids:
  "map node_id (build_nodes all store w h rnd k cs) = map conn_id cs"
  by (induction cs arbitrary: k)
     (simp_all add: build_nodes_Cons connectionNode_fields del: build_nodes.simps(2))

lemma build_nodes_shape:
  "map shape (build_nodes all store w h rnd k cs) = map (\<lambda>c. (conn_id c, False, Some c)) cs"
  by (induction cs arbitrary: k)
     (simp_all add: build_nodes_Cons connectionNode_fields shape_def del: build_nodes.simps(2))

lemma build_nodes_fresh:
  "n \<in> set (build_nodes all store w h rnd k cs) \<Longrightarrow> store (node_id n) = None \<Longrightarrow>
   \<exists>c r. c \<in> set cs \<and> connection n = Some c \<and>
     nx n = Some (jadd (Num (centerX w))
              (jmul (jcos (fst (seed_angle all c r))) (seed_radius (degree c)))) \<and>
     ny n = Some (jadd (Num (centerY h))
              (jmul (jsin (fst (seed_angle all c r))) (seed_radius (degree c))))"
proof (induction cs arbitrary: k)
  case Nil
  then show ?case by simp
next
  case (Cons c cs)
  show ?case
  proof (cases "n = connectionNode store w h c (fst (seed_angle all c (rnd k)))")
    case True
    then show ?thesis using Cons.prems
      by (intro exI[of _ c] exI[of _ "rnd k"]) (simp add: connectionNode_def Let_def)
  next
    case False
    then have "n \<in> set (build_nodes all store w h rnd (k + snd (seed_angle all c (rnd k))) cs)"
      using Cons.prems(1) by (simp add: build_nodes_Cons del: build_nodes.simps(2))
    from Cons.IH[OF this Cons.prems(2)] show ?thesis by auto
  qed
qed

lemma connectionNodes_stored:
  "m \<in> set (connectionNodes conns store w h rnd) \<Longrightarrow> store (node_id m) = Some (x, y) \<Longrightarrow>
   nx m = Some x \<and> ny m = Some y"
  unfolding connectionNodes_def using build_nodes_stored by fastforce

text \<open>
  C2. The builder makes one node per connection, in order. A node whose id has an
  entry in the Position Store starts exactly at the stored \<open>(x, y)\<close>; only a node
  without an entry starts at the seed position \<open>centre + (cos angle, sin angle) * radius\<close>
  of its seed angle.
\<close>

theorem rebuild_reuses_stored_positions:
  "map node_id (connectionNodes conns store w h rnd) = map conn_id conns \<and>
   (\<forall>n \<in> set (connectionNodes conns store w h rnd).
      case store (node_id n) of
        Some p \<Rightarrow> nx n = Some (fst p) \<and> ny n = Some (snd p)
      | None \<Rightarrow>
          (\<exists>c r. c \<in> set conns \<and> connection n = Some c \<and>
             nx n = Some (jadd (Num (centerX w))
                      (jmul (jcos (fst (seed_angle conns c r))) (seed_radius (degree c)))) \<and>
             ny n = Some (jadd (Num (centerY h))
                      (jmul (jsin (fst (seed_angle conns c r))) (seed_radius (degree c))))))"
proof (intro conjI ballI)
  show "map node_id (connectionNodes conns store w h rnd) = map conn_id conns"
    by (simp add: connectionNodes_def build_nodes_ids)
next
  fix n assume n: "n \<in> set (connectionNodes conns store w h rnd)"
  show "case store (node_id n) of
        Some p \<Rightarrow> nx n = Some (fst p) \<and> ny n = Some (snd p)
      | None \<Rightarrow>
          (\<exists>c r. c \<in> set conns \<and> connection n = Some c \<and>
             nx n = Some (jadd (Num (centerX w))
                      (jmul (jcos (fst (seed_angle conns c r))) (seed_radius (degree c)))) \<and>
             ny n = Some (jadd (Num (centerY h))
                      (jmul (jsin (fst (seed_angle conns c r))) (seed_radius (degree c)))))"
  proof (cases "store (node_id n)")
    case None
    with build_nodes_fresh[OF n[unfolded connectionNodes_def] None] show ?thesis by simp
  next
    case (Some p)
    with build_nodes_stored[OF n[unfolded connectionNodes_def] Some] show ?thesis by simp
  qed
qed

theorem rebuild_reuses_stored_positions_witness:
  "map (\<lambda>n. (node_id n, nx n, ny n))
       (connectionNodes [example_a, example_b] [''a'' \<mapsto> (Num 10, Num 20)] 800 600 random_half) =
     [(''a'', Some (Num 10), Some (Num 20)), (''b'', Some (Num 620), Some (Num 300))]"
  using rebuild_reuses_stored_positions
    [of "[example_a, example_b]" "[''a'' \<mapsto> (Num 10, Num 20)]" 800 600 random_half]
  by (simp add: builder_defs example_defs)

section \<open>Seed angles of the first ring\<close>

text \<open>
  C3. The first connection of degree 1 gets the angle \<open>2 * pi * 0 / n = 0\<close> in
  \<open>angleByFirstDegree\<close>, which \<open>||\<close> takes for a missing value: its seed angle is the
  random \<open>Math.random() * Math.PI * 2\<close>. With one connection of degree 1 and the random
  number a quarter the seed angle is \<open>pi / 2\<close>, not \<open>0\<close>, and the node starts at
  \<open>(400, 420)\<close>, not at \<open>(520, 300)\<close>.
\<close>

theorem ring1_first_node_random_angle:
  "angleByFirstDegree [example_a] (conn_id example_a) = Some (Num (2 * pi * 0 / 1)) \<and>
   seed_angle [example_a] example_a (random_quarter 0) = (Num (pi / 2), 1) \<and>
   Num (pi / 2) \<noteq> Num (2 * pi * 0 / 1) \<and>
   connectionNodes [example_a] Map.empty 800 600 random_quarter =
     [\<lparr>node_id = ''a'', isUser = False, connection = Some example_a,
       nx = Some (Num 400), ny = Some (Num 420),
       nvx = None, nvy = None, nfx = None, nfy = None\<rparr>]"
proof -
  have stored: "angleByFirstDegree [example_a] (conn_id example_a) = Some (Num 0)"
    by (simp add: angleByFirstDegree_def firstDegree_def js_map_def example_a_def)
  have falsy: "\<not> truthy (Num 0)"
    by simp
  have angle: "seed_angle [example_a] example_a (random_quarter 0) = (Num (pi / 2), 1)"
    using stored falsy by (simp add: seed_angle_def example_a_def random_quarter_def)
  have differs: "Num (pi / 2) \<noteq> Num (2 * pi * 0 / 1)"
    by simp
  have node: "connectionNodes [example_a] Map.empty 800 600 random_quarter =
     [\<lparr>node_id = ''a'', isUser = False, connection = Some example_a,
       nx = Some (Num 400), ny = Some (Num 420),
       nvx = None, nvy = None, nfx = None, nfy = None\<rparr>]"
    using angle
    by (simp add: connectionNodes_def connectionNode_def seed_radius_def degreeRadius_seed_def
          centerX_def centerY_def random_quarter_def)
       (simp add: example_a_def)
  from stored angle differs node show ?thesis by simp
qed

section \<open>Links and missing references\<close>

lemma nodeById_Some: "nodeById ns k = Some n \<Longrightarrow> n \<in> set ns \<and> node_id n = k"
  unfolding nodeById_def js_map_def
  by (auto dest!: map_of_SomeD)

lemma nodeById_None: "nodeById ns k = None \<longleftrightarrow> k \<notin> node_id ` set ns"
  unfolding nodeById_def js_map_def
  by (simp add: map_of_eq_None_iff image_image)

lemma explicit_link_cases:
  "explicit_link byId r = [] \<or>
   (\<exists>s t. byId (rel_source r) = Some s \<and> byId (rel_target r) = Some t \<and>
      explicit_link byId r = [\<lparr>source = s, target = t\<rparr>])"
  by (simp add: explicit_link_def split: option.splits)

lemma simLinks_endpoints:
  assumes "l \<in> set (simLinks u ns rels)"
  shows "source l \<in> set (u # ns) \<and> target l \<in> set (u # ns)"
proof -
  from assms consider
      (implicit) n where "n \<in> set ns" "l = \<lparr>source = u, target = n\<rparr>"
    | (explicit) r where "r \<in> set rels" "l \<in> set (explicit_link (nodeById (u # ns)) r)"
    unfolding simLinks_def by auto
  then show ?thesis
  proof cases
    case implicit
    then show ?thesis by simp
  next
    case explicit
    with explicit_link_cases[of "nodeById (u # ns)" r]
    obtain s t where "nodeById (u # ns) (rel_source r) = Some s"
      "nodeById (u # ns) (rel_target r) = Some t" "l = \<lparr>source = s, target = t\<rparr>"
      by auto
    then show ?thesis using nodeById_Some by fastforce
  qed
qed

lemma explicit_links_ids:
  "map link_ids (concat (map (explicit_link (nodeById ns)) rels)) =
   map relation_ids (filter (known ns) rels)"
proof (induction rels)
  case Nil
  then show ?case by simp
next
  case (Cons r rels)
  show ?case
  proof (cases "known ns r")
    case True
    then obtain s t where
      st: "nodeById ns (rel_source r) = Some s" "nodeById ns (rel_target r) = Some t"
      unfolding known_def using nodeById_None[of ns] by (metis not_Some_eq)
    then have "node_id s = rel_source r" "node_id t = rel_target r"
      using nodeById_Some by blast+
    with st True Cons.IH show ?thesis
      by (simp add: explicit_link_def link_ids_def relation_ids_def)
  next
    case False
    then have "nodeById ns (rel_source r) = None \<or> nodeById ns (rel_target r) = None"
      unfolding known_def by (simp add: nodeById_None)
    then have "explicit_link (nodeById ns) r = []"
      unfolding explicit_link_def by (auto split: option.splits)
    with False Cons.IH show ?thesis by simp
  qed
qed

text \<open>
  C6. The links are the links from the user node to the nodes of degree 1, followed
  by one link for every relation whose two ids are ids of nodes, in the order of the
  relations. A relation with both ids present has its link; for a relation with a
  missing id no link of the set joins these two ids. Building the links is a total
  function: nothing is raised.
\<close>

theorem drop_on_missing_reference:
  "map link_ids (simLinks user nodes_c links) =
     map (\<lambda>n. (node_id user, node_id n)) (filter is_first_degree nodes_c) @
     map relation_ids (filter (known (user # nodes_c)) links) \<and>
   (\<forall>r \<in> set links.
      if known (user # nodes_c) r
      then relation_ids r \<in> link_ids ` set (simLinks user nodes_c links)
      else relation_ids r \<notin> link_ids ` set (simLinks user nodes_c links))"
proof (intro conjI ballI)
  show eq: "map link_ids (simLinks user nodes_c links) =
     map (\<lambda>n. (node_id user, node_id n)) (filter is_first_degree nodes_c) @
     map relation_ids (filter (known (user # nodes_c)) links)"
    unfolding simLinks_def
    by (simp add: explicit_links_ids o_def link_ids_def)
  fix r assume r: "r \<in> set links"
  show "if known (user # nodes_c) r
      then relation_ids r \<in> link_ids ` set (simLinks user nodes_c links)
      else relation_ids r \<notin> link_ids ` set (simLinks user nodes_c links)"
  proof (cases "known (user # nodes_c) r")
    case True
    then have "relation_ids r \<in> set (map relation_ids (filter (known (user # nodes_c)) links))"
      using r by simp
    then have "relation_ids r \<in> set (map link_ids (simLinks user nodes_c links))"
      unfolding eq by simp
    then show ?thesis using True by simp
  next
    case False
    have "relation_ids r \<notin> link_ids ` set (simLinks user nodes_c links)"
    proof
      assume "relation_ids r \<in> link_ids ` set (simLinks user nodes_c links)"
      then obtain l where
        l: "l \<in> set (simLinks user nodes_c links)" "link_ids l = relation_ids r"
        by auto
      from simLinks_endpoints[OF l(1)] l(2) have "known (user # nodes_c) r"
        unfolding known_def link_ids_def relation_ids_def by (metis imageI prod.inject)
      with False show False by simp
    qed
    then show ?thesis using False by simp
  qed
qed

theorem drop_on_missing_reference_witness:
  "map link_ids
     (simLinks (userNode 800 600)
        (connectionNodes [example_a, example_b] Map.empty 800 600 random_half)
        example_relations) =
     [(''USER'', ''a''), (''a'', ''b'')] \<and>
   \<not> known (userNode 800 600 #
            connectionNodes [example_a, example_b] Map.empty 800 600 random_half)
        \<lparr>rel_source = ''a'', rel_target = ''zz''\<rparr> \<and>
   (''a'', ''zz'') \<notin> link_ids `
     set (simLinks (userNode 800 600)
            (connectionNodes [example_a, example_b] Map.empty 800 600 random_half)
            example_relations)"
  using drop_on_missing_reference
    [of "userNode 800 600"
        "connectionNodes [example_a, example_b] Map.empty 800 600 random_half"
        example_relations]
  by (simp add: builder_defs example_defs userNode_def known_def is_first_degree_def
        relation_ids_def)

section \<open>Radial force: unknown degrees and the zero-distance guard\<close>

lemma zero_guard:
  "0 \<le> q \<Longrightarrow> or_num (Some (jsqrt (Num q))) (Num 1) = Num (if sqrt q = 0 then 1 else sqrt q)"
  by simp

lemma radial_dist_value:
  "radial_dist w h (Num a) (Num b) =
     Num (if sqrt ((a - centerX w) * (a - centerX w) + (b - centerY h) * (b - centerY h)) = 0
          then 1
          else sqrt ((a - centerX w) * (a - centerX w) + (b - centerY h) * (b - centerY h)))"
proof -
  have "0 \<le> (a - centerX w) * (a - centerX w) + (b - centerY h) * (b - centerY h)"
    by simp
  then show ?thesis
    unfolding radial_dist_def Let_def jsub.simps jmul.simps jadd.simps
    by (rule zero_guard)
qed

lemma radial_dist_positive:
  "\<exists>d. radial_dist w h (Num a) (Num b) = Num d \<and> 0 < d \<and>
     (sqrt ((a - centerX w) * (a - centerX w) + (b - centerY h) * (b - centerY h)) = 0
        \<longrightarrow> d = 1)"
proof -
  define t where
    "t = sqrt ((a - centerX w) * (a - centerX w) + (b - centerY h) * (b - centerY h))"
  have "0 \<le> t" unfolding t_def by simp
  then have "0 < (if t = 0 then 1 else t) \<and> (t = 0 \<longrightarrow> (if t = 0 then 1 else t) = 1)"
    by auto
  moreover have "radial_dist w h (Num a) (Num b) = Num (if t = 0 then 1 else t)"
    unfolding t_def by (rule radial_dist_value)
  ultimately show ?thesis unfolding t_def by blast
qed

lemma known_degree_radius:
  assumes "deg = 1 \<or> deg = 2 \<or> deg = 3"
  shows "\<exists>r. degreeRadius w h deg = Some (Num r)"
proof -
  from assms have
    "degreeRadius w h deg = Some (Num (maxRadius w h * 0.3)) \<or>
     degreeRadius w h deg = Some (Num (maxRadius w h * 0.6)) \<or>
     degreeRadius w h deg = Some (Num (maxRadius w h * 0.9))"
    by (auto simp: degreeRadius_def)
  then show ?thesis by blast
qed

lemma unknown_degree_increment:
  "degreeRadius w h deg = None \<Longrightarrow> radial_increment w h alpha deg x y = (NaN, NaN)"
  by (simp add: radial_increment_def Let_def)

text \<open>
  C7. A connection of the unknown degree 4 gets the fallback radius 150 when its node
  is seeded. In the radial force the lookup \<open>degreeRadius[degree]\<close> has no fallback: the
  target radius is \<open>undefined\<close>, the node's velocity becomes \<open>NaN\<close>, and the next position
  update makes its position \<open>NaN\<close>. The node is not treated as a node of ring 2.
\<close>

theorem unknown_degree_radial_force:
  "seed_radius (degree example_d) = Num 150 \<and>
   nx example_node_d = Some (Num 550) \<and> ny example_node_d = Some (Num 300) \<and>
   degreeRadius 800 600 (degree example_d) = None \<and>
   degreeRadius 800 600 2 = Some (Num 144) \<and>
   nvx (radial_node 800 600 (3 / 10) example_node_d) = Some NaN \<and>
   nvy (radial_node 800 600 (3 / 10) example_node_d) = Some NaN \<and>
   nx (integrate (radial_node 800 600 (3 / 10) example_node_d)) = Some NaN \<and>
   ny (integrate (radial_node 800 600 (3 / 10) example_node_d)) = Some NaN"
proof -
  have r: "degreeRadius 800 600 (degree example_d) = None"
    by (simp add: degreeRadius_def example_d_def)
  have n: "connection example_node_d = Some example_d"
    "nx example_node_d = Some (Num 550)" "ny example_node_d = Some (Num 300)"
    "nfx example_node_d = None" "nfy example_node_d = None"
    by (simp_all add: example_node_d_def connectionNode_def Let_def seed_radius_def
          degreeRadius_seed_def example_d_def centerX_def centerY_def)
  have v: "nvx (radial_node 800 600 (3 / 10) example_node_d) = Some NaN"
    "nvy (radial_node 800 600 (3 / 10) example_node_d) = Some NaN"
    "nx (radial_node 800 600 (3 / 10) example_node_d) = Some (Num 550)"
    "ny (radial_node 800 600 (3 / 10) example_node_d) = Some (Num 300)"
    "nfx (radial_node 800 600 (3 / 10) example_node_d) = None"
    "nfy (radial_node 800 600 (3 / 10) example_node_d) = None"
    by (simp_all add: radial_node_def n unknown_degree_increment[OF r])
  have i: "nx (integrate (radial_node 800 600 (3 / 10) example_node_d)) = Some NaN"
    "ny (integrate (radial_node 800 600 (3 / 10) example_node_d)) = Some NaN"
    by (simp_all add: integrate_def v Let_def)
  have s: "seed_radius (degree example_d) = Num 150"
    by (simp add: seed_radius_def degreeRadius_seed_def example_d_def)
  have r2: "degreeRadius 800 600 2 = Some (Num 144)"
    by (simp add: degreeRadius_def maxRadius_def)
  from s n(2,3) r r2 v(1,2) i show ?thesis by simp
qed

text \<open>
  The zero-distance guard: for a node of degree 1, 2 or 3 at a finite position the
  divisor of the radial force is a number other than zero, it is 1 when the distance
  from the centre is zero, and both velocity increments are finite numbers.
\<close>

lemma radial_force_guard:
  assumes "deg = 1 \<or> deg = 2 \<or> deg = 3"
  shows "\<exists>d ix iy.
           radial_dist w h (Num a) (Num b) = Num d \<and> d \<noteq> 0 \<and>
           (sqrt ((a - centerX w) * (a - centerX w) + (b - centerY h) * (b - centerY h)) = 0
              \<longrightarrow> d = 1) \<and>
           radial_increment w h alpha deg (Num a) (Num b) = (Num ix, Num iy)"
proof -
  from radial_dist_positive[of w h a b] obtain d where
    d: "radial_dist w h (Num a) (Num b) = Num d" "0 < d"
    and one:
    "sqrt ((a - centerX w) * (a - centerX w) + (b - centerY h) * (b - centerY h)) = 0 \<longrightarrow> d = 1"
    by blast
  from known_degree_radius[OF assms] obtain r where r: "degreeRadius w h deg = Some (Num r)"
    by blast
  have "\<exists>ix iy. radial_increment w h alpha deg (Num a) (Num b) = (Num ix, Num iy)"
    using d r by (simp add: radial_increment_def Let_def)
  with d one show ?thesis by auto
qed

lemma radial_force_guard_witness:
  "radial_dist 800 600 (Num 400) (Num 300) = Num 1 \<and>
   radial_increment 800 600 (3 / 10) 1 (Num 400) (Num 300) = (Num 0, Num 0)"
  using radial_force_guard [of 1 800 600 400 300 "3 / 10"]
  by (simp add: radial_dist_def radial_increment_def degreeRadius_def centerX_def centerY_def)

text \<open>
  C8. The guard \<open>|| 1\<close> replaces a zero distance by 1: for a node at the centre of a
  viewport of 800 by 600 the divisor is 1. For a node of degree 4 at the finite
  position \<open>(550, 300)\<close> the divisor is 150, no division by zero takes place, and yet
  both velocity increments are \<open>NaN\<close>, since the target radius \<open>degreeRadius[4]\<close> is
  \<open>undefined\<close>: the radial force does not produce finite increments for every node at a
  finite position.
\<close>

theorem radial_force_non_finite_increment:
  "radial_dist 800 600 (Num 400) (Num 300) = Num 1 \<and>
   radial_dist 800 600 (Num 550) (Num 300) = Num 150 \<and>
   degreeRadius 800 600 4 = None \<and>
   radial_increment 800 600 (3 / 10) 4 (Num 550) (Num 300) = (NaN, NaN) \<and>
   \<not> finite_num (fst (radial_increment 800 600 (3 / 10) 4 (Num 550) (Num 300))) \<and>
   \<not> finite_num (snd (radial_increment 800 600 (3 / 10) 4 (Num 550) (Num 300)))"
proof -
  have centre: "radial_dist 800 600 (Num 400) (Num 300) = Num 1"
    by (simp add: radial_dist_value centerX_def centerY_def)
  have "sqrt (150 * 150) = (150 :: real)" using real_sqrt_abs2[of 150] by simp
  then have away: "radial_dist 800 600 (Num 550) (Num 300) = Num 150"
    by (simp add: radial_dist_value centerX_def centerY_def)
  have r: "degreeRadius 800 600 4 = None" by (simp add: degreeRadius_def)
  from centre away r unknown_degree_increment[OF r] show ?thesis by simp
qed

section \<open>What ticks and pointer events leave unchanged\<close>

lemma shape_set_velocity [simp]: "shape (set_velocity v n) = shape n"
  by (simp add: shape_def set_velocity_def)

lemma shape_integrate [simp]: "shape (integrate n) = shape n"
  by (simp add: shape_def integrate_def Let_def split: option.splits)

lemma shape_radial_node [simp]: "shape (radial_node w h a n) = shape n"
  by (simp add: shape_def radial_node_def Let_def split: option.splits)

lemma shape_initialize_node [simp]: "shape (initialize_node i n) = shape n"
  by (simp add: shape_def initialize_node_def Let_def split: option.splits)

lemma shape_drag [simp]:
  "shape (drag_start n) = shape n" "shape (drag_move ex ey n) = shape n"
  "shape (drag_end n) = shape n"
  by (simp_all add: shape_def drag_start_def drag_move_def drag_end_def)

lemma selectConnection_frame [simp]:
  "v_userNode (selectConnection c s) = v_userNode s"
  "v_connectionNodes (selectConnection c s) = v_connectionNodes s"
  "v_width (selectConnection c s) = v_width s"
  "v_height (selectConnection c s) = v_height s"
  "v_store (selectConnection c s) = v_store s"
  by (simp_all add: selectConnection_def split: option.splits)

lemma tick_frame:
  "map shape (v_connectionNodes (simulation_tick lib s)) = map shape (v_connectionNodes s)"
  "shape (v_userNode (simulation_tick lib s)) = shape (v_userNode s)"
  "v_width (simulation_tick lib s) = v_width s"
  "v_height (simulation_tick lib s) = v_height s"
  "v_selected (simulation_tick lib s) = v_selected s"
  "v_store (simulation_tick lib s) = v_store s"
  by (simp_all add: simulation_tick_def Let_def radialForce_def case_prod_beta o_def
        map_snd_enumerate_fun[of shape])

lemma funpow_tick_frame:
  "map shape (v_connectionNodes ((simulation_tick lib ^^ k) s)) = map shape (v_connectionNodes s)"
  "v_width ((simulation_tick lib ^^ k) s) = v_width s"
  "v_height ((simulation_tick lib ^^ k) s) = v_height s"
  "v_selected ((simulation_tick lib ^^ k) s) = v_selected s"
  "v_store ((simulation_tick lib ^^ k) s) = v_store s"
  by (induction k) (simp_all add: tick_frame)

lemma mount_frame:
  "map shape (v_connectionNodes (mount lib conns w h rnd store sel)) =
     map (\<lambda>c. (conn_id c, False, Some c)) conns"
  "v_width (mount lib conns w h rnd store sel) = w"
  "v_height (mount lib conns w h rnd store sel) = h"
  "v_selected (mount lib conns w h rnd store sel) = sel"
  "v_store (mount lib conns w h rnd store sel) = store"
  by (simp_all add: mount_def Let_def funpow_tick_frame case_prod_beta o_def
        map_snd_enumerate_fun[of shape] connectionNodes_def build_nodes_shape)

lemma mount_node_at:
  assumes "i < length conns"
  shows "\<exists>d. node_at (mount lib conns w h rnd store sel) (Suc i) = Some d \<and>
             \<not> isUser d \<and> connection d = Some (conns ! i) \<and> node_id d = conn_id (conns ! i)"
proof -
  let ?cns = "v_connectionNodes (mount lib conns w h rnd store sel)"
  have m: "map shape ?cns = map (\<lambda>c. (conn_id c, False, Some c)) conns"
    by (rule mount_frame)
  from arg_cong[OF m, of length] have len: "length ?cns = length conns"
    by simp
  have "shape (?cns ! i) = map shape ?cns ! i"
    using assms len by simp
  also have "\<dots> = map (\<lambda>c. (conn_id c, False, Some c)) conns ! i"
    by (simp only: m)
  also have "\<dots> = (conn_id (conns ! i), False, Some (conns ! i))"
    using assms by simp
  finally have "shape (?cns ! i) = (conn_id (conns ! i), False, Some (conns ! i))" .
  moreover have "node_at (mount lib conns w h rnd store sel) (Suc i) = Some (?cns ! i)"
    using assms len by (simp add: node_at_def nodes_def)
  ultimately show ?thesis by (simp add: shape_def)
qed

section \<open>Anchor invariance\<close>

lemma integrate_pinned:
  "nfx n = Some a \<Longrightarrow> nfy n = Some b \<Longrightarrow>
   nx (integrate n) = Some a \<and> ny (integrate n) = Some b \<and>
   nfx (integrate n) = Some a \<and> nfy (integrate n) = Some b \<and> isUser (integrate n) = isUser n"
  by (simp add: integrate_def)

lemma anchor_tick: "anchor_ok s \<Longrightarrow> anchor_ok (simulation_tick lib s)"
  by (simp add: anchor_ok_def simulation_tick_def Let_def integrate_pinned set_velocity_def)

lemma anchor_update_node:
  assumes "anchor_ok s" and "\<And>d. isUser d \<Longrightarrow> g d = d"
  shows "anchor_ok (update_node i g s)"
  using assms by (cases i) (simp_all add: anchor_ok_def update_node_def)

lemma anchor_step: "anchor_ok s \<Longrightarrow> anchor_ok (step lib e s)"
proof (cases e)
  case Tick
  assume "anchor_ok s"
  then have "anchor_ok (simulation_tick lib s)" by (rule anchor_tick)
  then show ?thesis using Tick by (simp add: Let_def anchor_ok_def)
next
  case (DragStart i active)
  assume a: "anchor_ok s"
  then have "anchor_ok (s\<lparr>v_alphaTarget := 0.3\<rparr>)" by (simp add: anchor_ok_def)
  with a show ?thesis using DragStart
    by (auto simp: Let_def drag_start_def split: option.splits intro!: anchor_update_node)
next
  case (Drag i ex ey)
  assume "anchor_ok s"
  then show ?thesis using Drag by (auto simp: drag_move_def intro!: anchor_update_node)
next
  case (DragEnd i active)
  assume a: "anchor_ok s"
  then have "anchor_ok (s\<lparr>v_alphaTarget := 0\<rparr>)" by (simp add: anchor_ok_def)
  with a show ?thesis using DragEnd
    by (auto simp: Let_def drag_end_def split: option.splits intro!: anchor_update_node)
next
  case (ClickNode i)
  assume "anchor_ok s"
  then show ?thesis using ClickNode
    by (auto simp: anchor_ok_def click_node_def click_background_def split: option.splits)
next
  case ClickBackground
  assume "anchor_ok s"
  then show ?thesis using ClickBackground
    by (simp add: anchor_ok_def click_background_def)
qed simp_all

lemma anchor_run: "anchor_ok s \<Longrightarrow> anchor_ok (run lib s es)"
  by (induction es arbitrary: s) (simp_all add: anchor_step)

lemma anchor_funpow: "anchor_ok s \<Longrightarrow> anchor_ok ((simulation_tick lib ^^ k) s)"
  by (induction k) (simp_all add: anchor_tick)

lemma initialize_userNode:
  "initialize_node 0 (userNode w h) = (userNode w h)\<lparr>nvx := Some (Num 0), nvy := Some (Num 0)\<rparr>"
  by (simp add: initialize_node_def userNode_def is_nan_def)

lemma anchor_mount: "anchor_ok (mount lib conns w h rnd store sel)"
proof -
  let ?s0 = "\<lparr>v_userNode = initialize_node 0 (userNode w h),
                v_connectionNodes = map (\<lambda>(i, n). initialize_node i n)
                  (enumerate 1 (connectionNodes conns store w h rnd)),
                v_alpha = 0.3, v_alphaTarget = 0, v_store = store, v_selected = sel,
                v_width = w, v_height = h\<rparr>"
  have "anchor_ok ?s0"
    by (simp add: anchor_ok_def initialize_userNode) (simp add: userNode_def)
  then have "anchor_ok ((simulation_tick lib ^^ 100) ?s0)" by (rule anchor_funpow)
  then show ?thesis by (simp add: mount_def Let_def anchor_ok_def)
qed

lemma step_dims:
  "v_width (step lib e s) = v_width s \<and> v_height (step lib e s) = v_height s"
  by (cases e)
     (auto simp: Let_def tick_frame update_node_def click_node_def click_background_def
        split: option.splits nat.splits)

lemma run_dims:
  "v_width (run lib s es) = v_width s \<and> v_height (run lib s es) = v_height s"
  by (induction es arbitrary: s) (simp_all add: step_dims)

text \<open>
  C1. After the view is mounted and after any sequence of ticks, drag events and
  clicks, the user node is at the centre \<open>(width / 2, height / 2)\<close> of the viewport and is
  pinned there; the drag handlers leave it as it is.
\<close>

theorem anchor_invariance:
  "nx (v_userNode (run lib (mount lib conns w h rnd store sel) evs)) = Some (Num (w / 2)) \<and>
   ny (v_userNode (run lib (mount lib conns w h rnd store sel) evs)) = Some (Num (h / 2)) \<and>
   nfx (v_userNode (run lib (mount lib conns w h rnd store sel) evs)) = Some (Num (w / 2)) \<and>
   nfy (v_userNode (run lib (mount lib conns w h rnd store sel) evs)) = Some (Num (h / 2)) \<and>
   drag_start (v_userNode (run lib (mount lib conns w h rnd store sel) evs)) =
     v_userNode (run lib (mount lib conns w h rnd store sel) evs) \<and>
   drag_move ex ey (v_userNode (run lib (mount lib conns w h rnd store sel) evs)) =
     v_userNode (run lib (mount lib conns w h rnd store sel) evs) \<and>
   drag_end (v_userNode (run lib (mount lib conns w h rnd store sel) evs)) =
     v_userNode (run lib (mount lib conns w h rnd store sel) evs)"
proof -
  let ?s = "run lib (mount lib conns w h rnd store sel) evs"
  have ok: "anchor_ok ?s" by (intro anchor_run anchor_mount)
  have dims: "v_width ?s = w" "v_height ?s = h"
    by (simp_all add: run_dims mount_frame)
  from ok dims have pos:
    "nx (v_userNode ?s) = Some (Num (w / 2))" "ny (v_userNode ?s) = Some (Num (h / 2))"
    "nfx (v_userNode ?s) = Some (Num (w / 2))" "nfy (v_userNode ?s) = Some (Num (h / 2))"
    by (simp_all add: anchor_ok_def centerX_def centerY_def)
  from ok have "isUser (v_userNode ?s)" by (simp add: anchor_ok_def)
  then have drag:
    "drag_start (v_userNode ?s) = v_userNode ?s"
    "drag_move ex ey (v_userNode ?s) = v_userNode ?s"
    "drag_end (v_userNode ?s) = v_userNode ?s"
    by (simp_all add: drag_start_def drag_move_def drag_end_def)
  from pos drag show ?thesis by simp
qed

theorem anchor_invariance_witness:
  "nx (v_userNode (run no_library_forces
         (mount no_library_forces [example_a, example_b] 800 600 random_half Map.empty None)
         [Tick, DragStart 0 False, Drag 0 (Num 1) (Num 2), Tick, DragEnd 0 False,
          MouseEnter 0, Zoom, DragStart 1 False, Drag 1 (Num 400) (Num 300), Tick])) = Some (Num 400) \<and>
   ny (v_userNode (run no_library_forces
         (mount no_library_forces [example_a, example_b] 800 600 random_half Map.empty None)
         [Tick, DragStart 0 False, Drag 0 (Num 1) (Num 2), Tick, DragEnd 0 False,
          MouseEnter 0, Zoom, DragStart 1 False, Drag 1 (Num 400) (Num 300), Tick])) = Some (Num 300)"
  using anchor_invariance
    [of no_library_forces "[example_a, example_b]" 800 600 random_half
        Map.empty None
        "[Tick, DragStart 0 False, Drag 0 (Num 1) (Num 2), Tick, DragEnd 0 False,
          MouseEnter 0, Zoom, DragStart 1 False, Drag 1 (Num 400) (Num 300), Tick]"]
  by simp

section \<open>Position Store\<close>

lemma save_position_other:
  "k \<noteq> node_id n \<Longrightarrow> save_position n store k = store k"
  by (simp add: save_position_def split: option.splits)

lemma fold_save_other:
  "k \<notin> node_id ` set ns \<Longrightarrow> fold save_position ns store k = store k"
  by (induction ns arbitrary: store) (simp_all add: save_position_other)

lemma fold_save_saved:
  assumes "distinct (map node_id ns)" "n \<in> set ns" "\<not> isUser n"
    "nx n = Some x" "ny n = Some y"
  shows "fold save_position ns store (node_id n) = Some (x, y)"
  using assms
proof (induction ns arbitrary: store)
  case Nil
  then show ?case by simp
next
  case (Cons m ns)
  show ?case
  proof (cases "n = m")
    case True
    with Cons.prems have "node_id n \<notin> node_id ` set ns" by auto
    then have "fold save_position ns (save_position m store) (node_id n) =
      save_position m store (node_id n)" by (rule fold_save_other)
    also have "\<dots> = Some (x, y)"
      using True Cons.prems by (simp add: save_position_def)
    finally show ?thesis by simp
  next
    case False
    with Cons.prems have "n \<in> set ns" "distinct (map node_id ns)" by auto
    from Cons.IH[OF this(2) this(1) Cons.prems(3,4,5)] show ?thesis by simp
  qed
qed

lemma save_position_absent:
  "k \<notin> dom store \<Longrightarrow> isUser n \<or> node_id n \<noteq> k \<Longrightarrow> k \<notin> dom (save_position n store)"
  by (auto simp: save_position_def split: option.splits)

lemma fold_save_absent:
  "k \<notin> dom store \<Longrightarrow> \<forall>n \<in> set ns. isUser n \<or> node_id n \<noteq> k \<Longrightarrow>
   k \<notin> dom (fold save_position ns store)"
proof (induction ns arbitrary: store)
  case Nil
  then show ?case by simp
next
  case (Cons m ns)
  from Cons.prems have "k \<notin> dom (save_position m store)"
    by (intro save_position_absent) auto
  from Cons.IH[OF this] Cons.prems(2) show ?case by simp
qed

section \<open>Selection\<close>

lemma node_at_selectConnection [simp]: "node_at (selectConnection c s) i = node_at s i"
  by (simp add: node_at_def nodes_def)

lemma selectConnection_none [simp]: "v_selected (selectConnection None s) = None"
  by (simp add: selectConnection_def)

lemma selectConnection_selected:
  "v_selected s = Some current \<Longrightarrow> conn_id current = conn_id c \<Longrightarrow>
   v_selected (selectConnection (Some c) s) = None"
  by (simp add: selectConnection_def)

lemma selectConnection_other:
  "(\<forall>current. v_selected s = Some current \<longrightarrow> conn_id current \<noteq> conn_id c) \<Longrightarrow>
   v_selected (selectConnection (Some c) s) = Some c"
  by (simp add: selectConnection_def split: option.splits)

lemma click_leaf:
  assumes "node_at s i = Some d" and "\<not> isUser d" and "connection d = Some c"
  shows "step lib (ClickNode i) s = selectConnection (Some c) s"
  using assms by (simp add: click_node_def)

text \<open>
  C4. A click on a leaf node that is already selected sets the selection to none; a
  click on a leaf node that is not selected selects it, and a second click on it sets
  the selection back to none. A click on the background sets the selection to none,
  also while a node is selected.
\<close>

theorem second_click_clears_selection:
  assumes "node_at s i = Some d" and "\<not> isUser d" and "connection d = Some c"
  shows "(\<forall>current. v_selected s = Some current \<and> conn_id current = conn_id c \<longrightarrow>
            v_selected (run lib s [ClickNode i]) = None) \<and>
         ((\<forall>current. v_selected s = Some current \<longrightarrow> conn_id current \<noteq> conn_id c) \<longrightarrow>
            v_selected (run lib s [ClickNode i]) = Some c \<and>
            v_selected (run lib s [ClickNode i, ClickNode i]) = None) \<and>
         v_selected (run lib s [ClickNode i, ClickBackground]) = None \<and>
         v_selected (run lib s [ClickBackground]) = None"
proof (intro conjI allI impI)
  have click: "step lib (ClickNode i) s = selectConnection (Some c) s"
    using assms by (rule click_leaf)
  have again: "node_at (selectConnection (Some c) s) i = Some d"
    using assms(1) by simp
  have click2: "step lib (ClickNode i) (selectConnection (Some c) s) =
      selectConnection (Some c) (selectConnection (Some c) s)"
    using again assms(2,3) by (rule click_leaf)
  show "v_selected (run lib s [ClickNode i]) = None"
    if "v_selected s = Some current \<and> conn_id current = conn_id c" for current
    using that by (simp add: click selectConnection_selected del: step.simps)
  show "v_selected (run lib s [ClickNode i]) = Some c"
    if "\<forall>current. v_selected s = Some current \<longrightarrow> conn_id current \<noteq> conn_id c"
    using that by (simp add: click selectConnection_other del: step.simps)
  show "v_selected (run lib s [ClickNode i, ClickNode i]) = None"
    if "\<forall>current. v_selected s = Some current \<longrightarrow> conn_id current \<noteq> conn_id c"
  proof -
    from that have "v_selected (selectConnection (Some c) s) = Some c"
      by (rule selectConnection_other)
    then have "v_selected (selectConnection (Some c) (selectConnection (Some c) s)) = None"
      by (rule selectConnection_selected) simp
    then show ?thesis by (simp add: click click2 del: step.simps)
  qed
  show "v_selected (run lib s [ClickNode i, ClickBackground]) = None"
    by (simp add: click_background_def)
  show "v_selected (run lib s [ClickBackground]) = None"
    by (simp add: click_background_def)
qed

theorem second_click_clears_selection_witness:
  "v_selected (run no_library_forces
     (mount no_library_forces [example_a] 800 600 random_quarter Map.empty (Some example_a))
     [ClickNode 1]) = None \<and>
   v_selected (run no_library_forces
     (mount no_library_forces [example_a] 800 600 random_quarter Map.empty None)
     [ClickNode 1]) = Some example_a \<and>
   v_selected (run no_library_forces
     (mount no_library_forces [example_a] 800 600 random_quarter Map.empty None)
     [ClickNode 1, ClickNode 1]) = None \<and>
   v_selected (run no_library_forces
     (mount no_library_forces [example_a] 800 600 random_quarter Map.empty (Some example_a))
     [ClickBackground]) = None"
proof -
  from mount_node_at
    [of 0 "[example_a]" no_library_forces 800 600 random_quarter Map.empty "Some example_a"]
  obtain d where d:
    "node_at (mount no_library_forces [example_a] 800 600 random_quarter Map.empty
       (Some example_a)) 1 = Some d"
    "\<not> isUser d" "connection d = Some example_a"
    by auto
  from mount_node_at[of 0 "[example_a]" no_library_forces 800 600 random_quarter Map.empty None]
  obtain d' where d':
    "node_at (mount no_library_forces [example_a] 800 600 random_quarter Map.empty None) 1 = Some d'"
    "\<not> isUser d'" "connection d' = Some example_a"
    by auto
  from second_click_clears_selection[OF d, of no_library_forces]
       second_click_clears_selection[OF d', of no_library_forces]
  show ?thesis by (simp add: mount_frame)
qed

section \<open>Email category overview: at most eight nodes\<close>

lemma push_email_keys:
  "map fst (push_email k e m) = (if k \<in> fst ` set m then map fst m else map fst m @ [k])"
  by (induction m) (auto split: if_splits)

lemma push_email_map_of:
  "map_of (push_email k e m) =
     (map_of m)(k \<mapsto> (case map_of m k of None \<Rightarrow> [e] | Some es \<Rightarrow> es @ [e]))"
  by (induction m) (auto simp: fun_eq_iff)

lemma grouped_value:
  "grouped m emails \<Longrightarrow> k \<in> fst ` set m \<Longrightarrow>
   map_of m k = Some (filter (\<lambda>e. key_of e = k) emails)"
  by (simp add: grouped_def)

lemma grouped_keys: "grouped m emails \<Longrightarrow> fst ` set m = key_of ` set emails"
  by (simp add: grouped_def)

lemma grouped_step:
  assumes "grouped m emails"
  shows "grouped (push_email (key_of e) e m) (emails @ [e])"
proof -
  let ?m' = "push_email (key_of e) e m"
  have keys: "set (map fst ?m') = insert (key_of e) (fst ` set m)"
    by (auto simp: push_email_keys)
  have "distinct (map fst m)" using assms by (simp add: grouped_def)
  then have d: "distinct (map fst ?m')"
    by (auto simp: push_email_keys)
  have k: "fst ` set ?m' = key_of ` set (emails @ [e])"
    using keys grouped_keys[OF assms] by auto
  have v: "map_of ?m' k = Some (filter (\<lambda>x. key_of x = k) (emails @ [e]))"
    if "k \<in> fst ` set ?m'" for k
  proof (cases "k = key_of e")
    case True
    show ?thesis
    proof (cases "key_of e \<in> fst ` set m")
      case True
      with assms have "map_of m (key_of e) = Some (filter (\<lambda>x. key_of x = key_of e) emails)"
        by (rule grouped_value)
      with \<open>k = key_of e\<close> show ?thesis by (simp add: push_email_map_of)
    next
      case False
      then have none: "map_of m (key_of e) = None" by (simp add: map_of_eq_None_iff)
      from False grouped_keys[OF assms] have "key_of e \<notin> key_of ` set emails" by simp
      then have "\<forall>x \<in> set emails. key_of x \<noteq> key_of e" by (metis imageI)
      then have "filter (\<lambda>x. key_of x = key_of e) emails = []"
        by (simp add: filter_empty_conv)
      with none \<open>k = key_of e\<close> show ?thesis by (simp add: push_email_map_of)
    qed
  next
    case False
    with that keys have "k \<in> fst ` set m" by auto
    with assms have "map_of m k = Some (filter (\<lambda>x. key_of x = k) emails)"
      by (rule grouped_value)
    with False show ?thesis by (simp add: push_email_map_of)
  qed
  from d k v show ?thesis unfolding grouped_def by blast
qed

lemma fold_push_grouped:
  "grouped (fold (\<lambda>email m. push_email (key_of email) email m) emails []) emails"
proof (induction emails rule: rev_induct)
  case Nil
  then show ?case by (simp add: grouped_def)
next
  case (snoc e emails)
  then show ?case by (simp add: grouped_step)
qed

lemma categoryMap_grouped: "grouped (categoryMap emails) emails"
  using fold_push_grouped[of emails] by (simp add: categoryMap_def key_of_def[abs_def])

lemma categoryMap_entry:
  assumes "(k, es) \<in> set (categoryMap emails)"
  shows "es = filter (\<lambda>e. key_of e = k) emails \<and> es \<noteq> []"
proof -
  have g: "grouped (categoryMap emails) emails" by (rule categoryMap_grouped)
  then have "distinct (map fst (categoryMap emails))" by (simp add: grouped_def)
  with assms have "map_of (categoryMap emails) k = Some es" by simp
  moreover from assms have kin: "k \<in> fst ` set (categoryMap emails)" by force
  ultimately have es: "es = filter (\<lambda>e. key_of e = k) emails"
    using grouped_value[OF g kin] by simp
  from kin grouped_keys[OF g] have "k \<in> key_of ` set emails" by simp
  then have "filter (\<lambda>e. key_of e = k) emails \<noteq> []"
    by (auto simp: filter_empty_conv)
  with es show ?thesis by simp
qed

lemma categories_fields:
  "map cat_label (categories emails) = map fst (take 8 (sorted_entries emails))"
  "map cat_emails (categories emails) = map snd (take 8 (sorted_entries emails))"
  "map cat_count (categories emails) = map (\<lambda>entry. length (snd entry)) (take 8 (sorted_entries emails))"
  by (simp_all add: categories_def case_prod_beta o_def map_snd_enumerate_fun[of fst]
        map_snd_enumerate_fun[of snd] map_snd_enumerate_fun[of "\<lambda>entry. length (snd entry)"])

lemma categoryNodes_fields:
  "map cn_category (categoryNodes cats w h) = map cat_label cats"
  "map cn_emails (categoryNodes cats w h) = map cat_emails cats"
  "map cn_count (categoryNodes cats w h) = map cat_count cats"
  "length (categoryNodes cats w h) = length cats"
  by (simp_all add: categoryNodes_def case_prod_beta o_def Let_def
        map_snd_enumerate_fun[of cat_label] map_snd_enumerate_fun[of cat_emails]
        map_snd_enumerate_fun[of cat_count])

lemma length_categoryMap: "length (categoryMap emails) = card (key_of ` set emails)"
proof -
  have g: "grouped (categoryMap emails) emails" by (rule categoryMap_grouped)
  then have "distinct (map fst (categoryMap emails))" by (simp add: grouped_def)
  then have "card (set (map fst (categoryMap emails))) = length (map fst (categoryMap emails))"
    by (rule distinct_card)
  with grouped_keys[OF g] show ?thesis by simp
qed

lemma sorted_entries_desc:
  "sorted_wrt (\<lambda>a b. length (snd b) \<le> length (snd a)) (sorted_entries emails)"
proof -
  have "sorted (map (\<lambda>entry. - int (length (snd entry))) (sorted_entries emails))"
    unfolding sorted_entries_def by (rule sorted_sort_key)
  then show ?thesis by (simp add: sorted_map)
qed

lemma categories_entry:
  assumes "c \<in> set (categories emails)"
  shows "(cat_label c, cat_emails c) \<in> set (categoryMap emails) \<and> cat_count c = length (cat_emails c)"
proof -
  from assms obtain i l es where
    ent: "(i, (l, es)) \<in> set (enumerate 0 (take 8 (sorted_entries emails)))"
    and c: "cat_label c = l" "cat_emails c = es" "cat_count c = length es"
    unfolding categories_def by auto
  from ent have "(l, es) \<in> snd ` set (enumerate 0 (take 8 (sorted_entries emails)))"
    by force
  then have "(l, es) \<in> set (take 8 (sorted_entries emails))"
    by (metis map_snd_enumerate set_map)
  then have "(l, es) \<in> set (sorted_entries emails)" by (rule in_set_takeD)
  then have "(l, es) \<in> set (categoryMap emails)" by (simp add: sorted_entries_def)
  with c show ?thesis by simp
qed

lemma sorted_entries_distinct: "distinct (map fst (sorted_entries emails))"
proof -
  have g: "grouped (categoryMap emails) emails" by (rule categoryMap_grouped)
  then have d: "distinct (map fst (categoryMap emails))" by (simp add: grouped_def)
  have "mset (map fst (sorted_entries emails)) = mset (map fst (categoryMap emails))"
    by (simp add: sorted_entries_def)
  from mset_eq_imp_distinct_iff[OF this] d show ?thesis by simp
qed

lemma omitted_categories:
  assumes "k \<in> fst ` set (drop 8 (sorted_entries emails))"
  shows "k \<notin> fst ` set (take 8 (sorted_entries emails))"
proof -
  have "distinct (map fst (take 8 (sorted_entries emails)) @ map fst (drop 8 (sorted_entries emails)))"
    using sorted_entries_distinct[of emails] by (simp flip: map_append)
  then have "set (map fst (take 8 (sorted_entries emails))) \<inter>
             set (map fst (drop 8 (sorted_entries emails))) = {}"
    by (simp only: distinct_append)
  with assms show ?thesis by auto
qed

text \<open>
  C10. The category view has one node per category of the truncated list, so at most
  eight: their number is the smaller of 8 and the number of distinct sender
  categories. The nodes are the first eight entries of the grouping sorted by
  descending number of emails (the sort permutes the entries of the grouping), their
  counts descend, and every category holds exactly the emails whose sender category
  is its label, counted by its count. Categories after the eighth have no node.
\<close>

theorem category_overview_at_most_eight:
  "length (categoryNodes (categories emails) w h) = min 8 (card (key_of ` set emails)) \<and>
   length (categoryNodes (categories emails) w h) \<le> 8 \<and>
   map cn_category (categoryNodes (categories emails) w h) =
     map fst (take 8 (sorted_entries emails)) \<and>
   mset (sorted_entries emails) = mset (categoryMap emails) \<and>
   sorted_wrt (\<lambda>a b. length (snd b) \<le> length (snd a)) (sorted_entries emails) \<and>
   sorted_wrt (\<lambda>a b. cn_count b \<le> cn_count a) (categoryNodes (categories emails) w h) \<and>
   (\<forall>c \<in> set (categories emails).
      cat_emails c = filter (\<lambda>e. key_of e = cat_label c) emails \<and>
      cat_count c = length (cat_emails c) \<and> 0 < cat_count c) \<and>
   (\<forall>k \<in> fst ` set (drop 8 (sorted_entries emails)).
      k \<notin> cn_category ` set (categoryNodes (categories emails) w h))"
proof (intro conjI ballI)
  have len: "length (categories emails) = min 8 (length (sorted_entries emails))"
    by (simp add: categories_def min.commute)
  have "length (sorted_entries emails) = card (key_of ` set emails)"
    by (simp add: sorted_entries_def length_categoryMap)
  with len show "length (categoryNodes (categories emails) w h) = min 8 (card (key_of ` set emails))"
    by (simp add: categoryNodes_fields)
  from len show "length (categoryNodes (categories emails) w h) \<le> 8"
    by (simp add: categoryNodes_fields)
  show "map cn_category (categoryNodes (categories emails) w h) =
     map fst (take 8 (sorted_entries emails))"
    by (simp add: categoryNodes_fields categories_fields)
  show "mset (sorted_entries emails) = mset (categoryMap emails)"
    by (simp add: sorted_entries_def)
  show desc: "sorted_wrt (\<lambda>a b. length (snd b) \<le> length (snd a)) (sorted_entries emails)"
    by (rule sorted_entries_desc)
  have "sorted_wrt (\<lambda>a b. length (snd b) \<le> length (snd a)) (take 8 (sorted_entries emails))"
    using desc by (rule sorted_wrt_take)
  then have "sorted_wrt (\<lambda>a b. b \<le> a) (map (\<lambda>entry. length (snd entry)) (take 8 (sorted_entries emails)))"
    by (simp add: sorted_wrt_map)
  then have "sorted_wrt (\<lambda>a b. b \<le> a) (map cn_count (categoryNodes (categories emails) w h))"
    by (simp add: categoryNodes_fields categories_fields)
  then show "sorted_wrt (\<lambda>a b. cn_count b \<le> cn_count a) (categoryNodes (categories emails) w h)"
    by (simp add: sorted_wrt_map)
next
  fix c assume c: "c \<in> set (categories emails)"
  from categories_entry[OF c] have ent: "(cat_label c, cat_emails c) \<in> set (categoryMap emails)"
    and cnt: "cat_count c = length (cat_emails c)" by simp_all
  from categoryMap_entry[OF ent]
  have es: "cat_emails c = filter (\<lambda>e. key_of e = cat_label c) emails"
    and ne: "cat_emails c \<noteq> []" by blast+
  show "cat_emails c = filter (\<lambda>e. key_of e = cat_label c) emails" by (rule es)
  show "cat_count c = length (cat_emails c)" by (rule cnt)
  from ne cnt show "0 < cat_count c" by simp
next
  fix k assume "k \<in> fst ` set (drop 8 (sorted_entries emails))"
  then have "k \<notin> fst ` set (take 8 (sorted_entries emails))"
    by (rule omitted_categories)
  moreover have "cn_category ` set (categoryNodes (categories emails) w h) =
      fst ` set (take 8 (sorted_entries emails))"
    using arg_cong[OF categoryNodes_fields(1)[of "categories emails" w h], of set]
    by (simp add: categories_fields)
  ultimately show "k \<notin> cn_category ` set (categoryNodes (categories emails) w h)"
    by simp
qed


lemmas category_defs =
  extractCategory_def match_prefix_def trim_def toLowerCase_def lower_char_def is_space_def
  capitalize_def upper_char_def

lemma example_keys:
  "extractCategory ''John Doe <john@gmail.com>'' = ''John''"
  "extractCategory ''GitHub <noreply@github.com>'' = ''Github''"
  "extractCategory ''c@gamma.com'' = ''Gamma''"
  "extractCategory ''d@delta.com'' = ''Delta''"
  "extractCategory ''e@epsilon.com'' = ''Epsilon''"
  "extractCategory ''f@zeta.com'' = ''Zeta''"
  "extractCategory ''g@eta.com'' = ''Eta''"
  "extractCategory ''h@theta.com'' = ''Theta''"
  "extractCategory ''i@iota.com'' = ''Iota''"
  "extractCategory ''j@iota.com'' = ''Iota''"
  "extractCategory ''plain sender'' = ''plain''"
  by (simp_all add: category_defs)

theorem category_overview_at_most_eight_witness:
  "map (\<lambda>n. (cn_category n, cn_count n)) (categoryNodes (categories example_emails) 800 400) =
     [(''Iota'', 2), (''John'', 1), (''Github'', 1), (''Gamma'', 1), (''Delta'', 1),
      (''Epsilon'', 1), (''Zeta'', 1), (''Eta'', 1)] \<and>
   card (key_of ` set example_emails) = 9 \<and>
   ''Theta'' \<in> key_of ` set example_emails \<and>
   ''Theta'' \<notin> cn_category ` set (categoryNodes (categories example_emails) 800 400)"
  using category_overview_at_most_eight [of example_emails 800 400]
  by (simp add: example_emails_def categories_def categoryNodes_def sorted_entries_def
        categoryMap_def example_keys key_of_def)

section \<open>Further properties of the seed angles\<close>

lemma angleByFirstDegree_at:
  assumes "distinct (map conn_id (firstDegree conns))" and "i < length (firstDegree conns)"
  shows "angleByFirstDegree conns (conn_id (firstDegree conns ! i)) =
           Some (Num (real i / real (length (firstDegree conns)) * pi * 2))"
proof -
  let ?fd = "firstDegree conns"
  let ?V = "\<lambda>j. Num (real j / real (length ?fd) * pi * 2)"
  let ?entries = "map (\<lambda>(j, c). (conn_id c, ?V j)) (enumerate 0 ?fd)"
  have keys: "map fst ?entries = map conn_id ?fd"
    by (simp add: case_prod_beta o_def map_snd_enumerate_fun[of conn_id])
  have "(i, ?fd ! i) \<in> set (enumerate 0 ?fd)"
    using assms(2) by (simp add: in_set_enumerate_eq)
  then have "(conn_id (?fd ! i), ?V i) \<in> (\<lambda>(j, c). (conn_id c, ?V j)) ` set (enumerate 0 ?fd)"
    by (rule rev_image_eqI) simp
  then have mem: "(conn_id (?fd ! i), ?V i) \<in> set (rev ?entries)"
    by simp
  have "distinct (map fst (rev ?entries))"
    using assms(1) keys by (simp add: rev_map[symmetric] del: map_map)
  from map_of_is_SomeI[OF this mem] show ?thesis
    by (simp add: angleByFirstDegree_def Let_def js_map_def)
qed

text \<open>
  When the ids of the connections of degree 1 are distinct, every one of them but the
  first gets the seed angle \<open>2 * pi * i / n\<close> of its index \<open>i\<close> among the \<open>n\<close>
  connections of degree 1, and no random number is drawn for it.
\<close>

theorem ring1_later_nodes_evenly_spaced:
  assumes "distinct (map conn_id (firstDegree conns))"
    and "i < length (firstDegree conns)" and "0 < i"
  shows "seed_angle conns (firstDegree conns ! i) r =
           (Num (real i / real (length (firstDegree conns)) * pi * 2), 0)"
proof -
  let ?c = "firstDegree conns ! i"
  have "?c \<in> set (firstDegree conns)" using assms(2) by simp
  then have deg: "degree ?c = 1" by (simp add: firstDegree_def)
  have "0 < length (firstDegree conns)" using assms(2) by auto
  define q where "q = real i / real (length (firstDegree conns))"
  from \<open>0 < length (firstDegree conns)\<close> assms(3) have "0 < q"
    unfolding q_def by simp
  then have "truthy (Num (q * pi * 2))" by simp
  then have "truthy (Num (real i / real (length (firstDegree conns)) * pi * 2))"
    unfolding q_def .
  with deg angleByFirstDegree_at[OF assms(1,2)] show ?thesis
    by (simp add: seed_angle_def)
qed


theorem ring1_later_nodes_evenly_spaced_witness:
  "seed_angle [example_a, example_c] example_c 0 = (Num pi, 0)"
  using ring1_later_nodes_evenly_spaced [of "[example_a, example_c]" 1 0]
  by (simp add: firstDegree_def example_a_def example_c_def)

section \<open>Further properties of the Position Store\<close>

lemma update_node_shape:
  assumes "\<And>d. shape (g d) = shape d"
  shows "map shape (v_connectionNodes (update_node i g s)) = map shape (v_connectionNodes s)"
    and "shape (v_userNode (update_node i g s)) = shape (v_userNode s)"
    and "v_store (update_node i g s) = v_store s"
  by (cases i; simp add: update_node_def assms map_update list_update_same_conv)+

lemma step_shape:
  "map shape (v_connectionNodes (step lib e s)) = map shape (v_connectionNodes s)"
  "shape (v_userNode (step lib e s)) = shape (v_userNode s)"
  by (cases e; simp add: Let_def tick_frame update_node_shape click_node_def
        click_background_def split: option.splits)+

lemma run_shape:
  "map shape (v_connectionNodes (run lib s es)) = map shape (v_connectionNodes s)"
  "shape (v_userNode (run lib s es)) = shape (v_userNode s)"
  by (induction es arbitrary: s) (simp_all add: step_shape)

lemma mount_user_shape:
  "shape (v_userNode (mount lib conns w h rnd store sel)) = (''USER'', True, None)"
proof -
  have f: "shape (v_userNode ((simulation_tick lib ^^ k) s)) = shape (v_userNode s)" for k s
    by (induction k) (simp_all add: tick_frame)
  show ?thesis
    by (simp add: mount_def Let_def f) (simp add: shape_def userNode_def)
qed

lemma well_shaped_reachable:
  "well_shaped conns (run lib (mount lib conns w h rnd store sel) evs)"
  by (simp add: well_shaped_def run_shape mount_frame mount_user_shape)

lemma well_shaped_length:
  assumes "well_shaped conns s"
  shows "length (v_connectionNodes s) = length conns"
proof -
  from assms
  have "map shape (v_connectionNodes s) = map (\<lambda>c. (conn_id c, False, Some c)) conns"
    by (simp add: well_shaped_def)
  from arg_cong[OF this, of length] show ?thesis by simp
qed

lemma well_shaped_ids:
  assumes "well_shaped conns s"
  shows "map node_id (nodes s) = ''USER'' # map conn_id conns"
    and "\<forall>n \<in> set (v_connectionNodes s). \<not> isUser n \<and> node_id n \<in> conn_id ` set conns"
    and "isUser (v_userNode s)"
proof -
  from assms have m: "map shape (v_connectionNodes s) = map (\<lambda>c. (conn_id c, False, Some c)) conns"
    and u: "shape (v_userNode s) = (''USER'', True, None)"
    by (simp_all add: well_shaped_def)
  from arg_cong[OF m, of "map fst"] have ids: "map node_id (v_connectionNodes s) = map conn_id conns"
    by (simp add: o_def shape_def)
  with u show "map node_id (nodes s) = ''USER'' # map conn_id conns"
    by (simp add: nodes_def shape_def)
  from u show "isUser (v_userNode s)" by (simp add: shape_def)
  show "\<forall>n \<in> set (v_connectionNodes s). \<not> isUser n \<and> node_id n \<in> conn_id ` set conns"
  proof
    fix n assume n: "n \<in> set (v_connectionNodes s)"
    then have "shape n \<in> set (map shape (v_connectionNodes s))" by simp
    then have "shape n \<in> set (map (\<lambda>c. (conn_id c, False, Some c)) conns)"
      by (simp only: m)
    then show "\<not> isUser n \<and> node_id n \<in> conn_id ` set conns"
      by (auto simp: shape_def)
  qed
qed

lemma step_store:
  assumes "e \<noteq> Tick"
  shows "v_store (step lib e s) = v_store s"
  using assms
  by (cases e; simp add: Let_def update_node_shape click_node_def
        click_background_def split: option.splits)

lemma tick_store:
  "v_store (step lib Tick s) = tick_listener (nodes (simulation_tick lib s)) (v_store s)"
  by (simp add: Let_def tick_frame)

lemma store_step_absent:
  assumes "well_shaped conns s" and "''USER'' \<notin> conn_id ` set conns"
    and "''USER'' \<notin> dom (v_store s)"
  shows "''USER'' \<notin> dom (v_store (step lib e s))"
proof (cases "e = Tick")
  case False
  then show ?thesis using assms(3) by (simp add: step_store)
next
  case True
  let ?s1 = "simulation_tick lib s"
  have "well_shaped conns ?s1"
    using assms(1) by (simp add: well_shaped_def tick_frame)
  from well_shaped_ids(2,3)[OF this] assms(2)
  have "\<forall>n \<in> set (nodes ?s1). isUser n \<or> node_id n \<noteq> ''USER''"
    unfolding nodes_def by (metis set_ConsD)
  with assms(3) have "''USER'' \<notin> dom (tick_listener (nodes ?s1) (v_store s))"
    unfolding tick_listener_def by (intro fold_save_absent) auto
  then show ?thesis unfolding True tick_store .
qed

lemma well_shaped_step: "well_shaped conns s \<Longrightarrow> well_shaped conns (step lib e s)"
  by (simp add: well_shaped_def step_shape)

lemma store_run_absent:
  assumes "well_shaped conns s" and "''USER'' \<notin> conn_id ` set conns"
    and "''USER'' \<notin> dom (v_store s)"
  shows "''USER'' \<notin> dom (v_store (run lib s es))"
  using assms
proof (induction es arbitrary: s)
  case Nil
  then show ?case by simp
next
  case (Cons e es)
  from Cons.prems have "well_shaped conns (step lib e s)"
    and "''USER'' \<notin> dom (v_store (step lib e s))"
    by (simp_all add: well_shaped_step store_step_absent)
  from Cons.IH[OF this(1) Cons.prems(2) this(2)] show ?case by simp
qed

lemma run_append: "run lib s (xs @ ys) = run lib (run lib s xs) ys"
  by (induction xs arbitrary: s) simp_all

lemma pins_kept:
  "nfx (set_velocity v n) = nfx n" "nfy (set_velocity v n) = nfy n"
  "nfx (radial_node w h a n) = nfx n" "nfy (radial_node w h a n) = nfy n"
  by (simp_all add: set_velocity_def radial_node_def Let_def split: option.splits)

section \<open>The Position Store of a mounted view\<close>

lemma integrate_position: "\<exists>x y. nx (integrate n) = Some x \<and> ny (integrate n) = Some y"
  by (simp add: integrate_def Let_def split: option.splits)

lemma tick_node:
  assumes "j < length (v_connectionNodes s)"
  shows "\<exists>m. v_connectionNodes (simulation_tick lib s) ! j = integrate m \<and>
             nfx m = nfx (v_connectionNodes s ! j) \<and> nfy m = nfy (v_connectionNodes s ! j)"
proof -
  let ?alpha = "v_alpha s + (v_alphaTarget s - v_alpha s) * 0.03"
  let ?cns = "radialForce (v_width s) (v_height s) ?alpha (v_connectionNodes s)"
  let ?vel = "lib ?alpha (v_userNode s # ?cns)"
  have len: "j < length ?cns" using assms by (simp add: radialForce_def)
  have "v_connectionNodes (simulation_tick lib s) ! j =
          integrate (set_velocity (?vel (1 + j)) (?cns ! j))"
    using len by (simp add: simulation_tick_def Let_def nth_enumerate_eq)
  moreover have "nfx (set_velocity (?vel (1 + j)) (?cns ! j)) = nfx (v_connectionNodes s ! j)"
    "nfy (set_velocity (?vel (1 + j)) (?cns ! j)) = nfy (v_connectionNodes s ! j)"
    using assms by (simp_all add: radialForce_def pins_kept)
  ultimately show ?thesis by blast
qed

lemma tick_saves_node:
  assumes ws: "well_shaped conns s"
    and d: "distinct (map conn_id conns)" and u: "''USER'' \<notin> conn_id ` set conns"
    and j: "j < length conns"
  shows "\<exists>x y. nx (v_connectionNodes (step lib Tick s) ! j) = Some x \<and>
               ny (v_connectionNodes (step lib Tick s) ! j) = Some y \<and>
               node_id (v_connectionNodes (step lib Tick s) ! j) = conn_id (conns ! j) \<and>
               v_store (step lib Tick s) (conn_id (conns ! j)) = Some (x, y)"
proof -
  let ?s2 = "simulation_tick lib s"
  let ?n = "v_connectionNodes ?s2 ! j"
  from ws have ws2: "well_shaped conns ?s2"
    by (simp add: well_shaped_def tick_frame)
  from ws have len: "length (v_connectionNodes s) = length conns"
    by (rule well_shaped_length)
  from ws2 have len2: "length (v_connectionNodes ?s2) = length conns"
    by (rule well_shaped_length)
  from tick_node[of j s lib] j len obtain m where m: "?n = integrate m"
    by auto
  from integrate_position[of m] m obtain x y where pos: "nx ?n = Some x" "ny ?n = Some y"
    by auto
  have cn3: "v_connectionNodes (step lib Tick s) = v_connectionNodes ?s2"
    by (simp add: Let_def)
  have mem: "?n \<in> set (nodes ?s2)"
    using j len2 by (simp add: nodes_def)
  from well_shaped_ids(2)[OF ws2] j len2 have leaf: "\<not> isUser ?n" by simp
  from well_shaped_ids(1)[OF ws2]
  have ids: "map node_id (nodes ?s2) = ''USER'' # map conn_id conns" .
  then have dist: "distinct (map node_id (nodes ?s2))"
    using d u by simp
  from ids have "map node_id (v_connectionNodes ?s2) = map conn_id conns"
    by (simp add: nodes_def)
  then have "map node_id (v_connectionNodes ?s2) ! j = map conn_id conns ! j" by simp
  then have id: "node_id ?n = conn_id (conns ! j)"
    using j len2 by simp
  have "v_store (step lib Tick s) (node_id ?n) = Some (x, y)"
    unfolding tick_store tick_listener_def
    using dist mem leaf pos by (rule fold_save_saved)
  with id pos cn3 show ?thesis by simp
qed

lemma rebuild_stored:
  assumes "store k = Some (x, y)" and "i < length conns2" and "conn_id (conns2 ! i) = k"
  shows "nx (connectionNodes conns2 store w2 h2 rnd2 ! i) = Some x \<and>
         ny (connectionNodes conns2 store w2 h2 rnd2 ! i) = Some y"
proof -
  let ?ns = "connectionNodes conns2 store w2 h2 rnd2"
  have ids: "map node_id ?ns = map conn_id conns2"
    by (simp add: connectionNodes_def build_nodes_ids)
  from arg_cong[OF ids, of length] have len: "length ?ns = length conns2" by simp
  from ids have "map node_id ?ns ! i = map conn_id conns2 ! i" by simp
  with assms(2,3) len have id: "node_id (?ns ! i) = k" by simp
  from assms(2) len have mem: "?ns ! i \<in> set ?ns" by simp
  from assms(1) id have "store (node_id (?ns ! i)) = Some (x, y)" by simp
  with mem show ?thesis by (rule connectionNodes_stored)
qed

text \<open>
  C9. In a mounted view whose connections have distinct ids other than \<open>USER\<close>, after
  any ticks and pointer events every tick leaves, for every connection node, the
  position the node has after the tick in the Position Store under the node's id, and
  a rebuild from that store starts the node of that id there. The id \<open>USER\<close> is in the
  store of no reachable state. A node pinned by a drag event is, after the next tick,
  still pinned, at the pointer position, and stored there, so that a rebuild starts it
  at the pointer position.
\<close>

theorem tick_updates_position_store:
  assumes "distinct (map conn_id conns)" and "''USER'' \<notin> conn_id ` set conns"
    and "''USER'' \<notin> dom store" and "j < length conns"
  shows "(\<exists>x y.
            nx (v_connectionNodes (run lib (mount lib conns w h rnd store sel) (evs @ [Tick])) ! j)
              = Some x \<and>
            ny (v_connectionNodes (run lib (mount lib conns w h rnd store sel) (evs @ [Tick])) ! j)
              = Some y \<and>
            node_id
              (v_connectionNodes (run lib (mount lib conns w h rnd store sel) (evs @ [Tick])) ! j)
              = conn_id (conns ! j) \<and>
            v_store (run lib (mount lib conns w h rnd store sel) (evs @ [Tick]))
              (conn_id (conns ! j)) = Some (x, y) \<and>
            (\<forall>conns2 w2 h2 rnd2 i. i < length conns2 \<and> conn_id (conns2 ! i) = conn_id (conns ! j) \<longrightarrow>
               nx (connectionNodes conns2
                     (v_store (run lib (mount lib conns w h rnd store sel) (evs @ [Tick])))
                     w2 h2 rnd2 ! i) = Some x \<and>
               ny (connectionNodes conns2
                     (v_store (run lib (mount lib conns w h rnd store sel) (evs @ [Tick])))
                     w2 h2 rnd2 ! i) = Some y)) \<and>
         ''USER'' \<notin> dom (v_store (run lib (mount lib conns w h rnd store sel) evs)) \<and>
         nfx (v_connectionNodes
               (run lib (mount lib conns w h rnd store sel) (evs @ [Drag (Suc j) ex ey, Tick])) ! j)
           = Some ex \<and>
         nfy (v_connectionNodes
               (run lib (mount lib conns w h rnd store sel) (evs @ [Drag (Suc j) ex ey, Tick])) ! j)
           = Some ey \<and>
         nx (v_connectionNodes
               (run lib (mount lib conns w h rnd store sel) (evs @ [Drag (Suc j) ex ey, Tick])) ! j)
           = Some ex \<and>
         ny (v_connectionNodes
               (run lib (mount lib conns w h rnd store sel) (evs @ [Drag (Suc j) ex ey, Tick])) ! j)
           = Some ey \<and>
         v_store (run lib (mount lib conns w h rnd store sel) (evs @ [Drag (Suc j) ex ey, Tick]))
           (conn_id (conns ! j)) = Some (ex, ey) \<and>
         (\<forall>conns2 w2 h2 rnd2 i. i < length conns2 \<and> conn_id (conns2 ! i) = conn_id (conns ! j) \<longrightarrow>
            nx (connectionNodes conns2
                  (v_store (run lib (mount lib conns w h rnd store sel)
                     (evs @ [Drag (Suc j) ex ey, Tick])))
                  w2 h2 rnd2 ! i) = Some ex \<and>
            ny (connectionNodes conns2
                  (v_store (run lib (mount lib conns w h rnd store sel)
                     (evs @ [Drag (Suc j) ex ey, Tick])))
                  w2 h2 rnd2 ! i) = Some ey)"
proof -
  let ?m = "mount lib conns w h rnd store sel"
  let ?s0 = "run lib ?m evs"
  let ?s1 = "update_node (Suc j) (drag_move ex ey) ?s0"
  have ws0: "well_shaped conns ?s0" by (rule well_shaped_reachable)
  then have ws1: "well_shaped conns ?s1"
    by (simp add: well_shaped_def update_node_shape)
  have r0: "run lib ?m (evs @ [Tick]) = step lib Tick ?s0"
    by (simp add: run_append)
  have r1: "run lib ?m (evs @ [Drag (Suc j) ex ey, Tick]) = step lib Tick ?s1"
    by (simp add: run_append)
  \<comment> \<open>every tick stores the position of the node\<close>
  from tick_saves_node[OF ws0 assms(1,2,4), of lib] obtain x y where
    t0: "nx (v_connectionNodes (step lib Tick ?s0) ! j) = Some x"
        "ny (v_connectionNodes (step lib Tick ?s0) ! j) = Some y"
        "node_id (v_connectionNodes (step lib Tick ?s0) ! j) = conn_id (conns ! j)"
        "v_store (step lib Tick ?s0) (conn_id (conns ! j)) = Some (x, y)"
    by blast
  have b0: "\<forall>conns2 w2 h2 rnd2 i.
      i < length conns2 \<and> conn_id (conns2 ! i) = conn_id (conns ! j) \<longrightarrow>
      nx (connectionNodes conns2 (v_store (step lib Tick ?s0)) w2 h2 rnd2 ! i) = Some x \<and>
      ny (connectionNodes conns2 (v_store (step lib Tick ?s0)) w2 h2 rnd2 ! i) = Some y"
    using rebuild_stored[of "v_store (step lib Tick ?s0)" "conn_id (conns ! j)" x y] t0(4)
    by blast
  have first: "\<exists>x y.
      nx (v_connectionNodes (step lib Tick ?s0) ! j) = Some x \<and>
      ny (v_connectionNodes (step lib Tick ?s0) ! j) = Some y \<and>
      node_id (v_connectionNodes (step lib Tick ?s0) ! j) = conn_id (conns ! j) \<and>
      v_store (step lib Tick ?s0) (conn_id (conns ! j)) = Some (x, y) \<and>
      (\<forall>conns2 w2 h2 rnd2 i.
         i < length conns2 \<and> conn_id (conns2 ! i) = conn_id (conns ! j) \<longrightarrow>
         nx (connectionNodes conns2 (v_store (step lib Tick ?s0)) w2 h2 rnd2 ! i) = Some x \<and>
         ny (connectionNodes conns2 (v_store (step lib Tick ?s0)) w2 h2 rnd2 ! i) = Some y)"
    using t0 b0 by blast
  \<comment> \<open>the user node is never stored\<close>
  have ws: "well_shaped conns ?m"
    using well_shaped_reachable[of conns lib w h rnd store sel "[]"] by simp
  have "''USER'' \<notin> dom (v_store ?m)"
    using assms(3) by (simp add: mount_frame)
  with ws assms(2) have second: "''USER'' \<notin> dom (v_store ?s0)"
    by (rule store_run_absent)
  \<comment> \<open>a dragged node\<close>
  from ws0 have len0: "length (v_connectionNodes ?s0) = length conns"
    by (rule well_shaped_length)
  from well_shaped_ids(2)[OF ws0] assms(4) len0
  have leaf: "\<not> isUser (v_connectionNodes ?s0 ! j)" by simp
  have cns1: "v_connectionNodes ?s1 =
      (v_connectionNodes ?s0)[j := drag_move ex ey (v_connectionNodes ?s0 ! j)]"
    using assms(4) len0 by (simp add: update_node_def)
  then have len1: "j < length (v_connectionNodes ?s1)"
    using assms(4) len0 by simp
  from cns1 leaf assms(4) len0
  have pin: "nfx (v_connectionNodes ?s1 ! j) = Some ex" "nfy (v_connectionNodes ?s1 ! j) = Some ey"
    by (simp_all add: drag_move_def)
  have cn: "v_connectionNodes (step lib Tick ?s1) = v_connectionNodes (simulation_tick lib ?s1)"
    by (simp add: Let_def)
  from tick_node[OF len1, of lib] obtain m where
    m: "v_connectionNodes (simulation_tick lib ?s1) ! j = integrate m"
       "nfx m = Some ex" "nfy m = Some ey"
    using pin by auto
  from integrate_pinned[OF m(2,3)] m(1) cn
  have p1: "nx (v_connectionNodes (step lib Tick ?s1) ! j) = Some ex"
           "ny (v_connectionNodes (step lib Tick ?s1) ! j) = Some ey"
           "nfx (v_connectionNodes (step lib Tick ?s1) ! j) = Some ex"
           "nfy (v_connectionNodes (step lib Tick ?s1) ! j) = Some ey"
    by simp_all
  from tick_saves_node[OF ws1 assms(1,2,4), of lib] p1(1,2)
  have st: "v_store (step lib Tick ?s1) (conn_id (conns ! j)) = Some (ex, ey)"
    by auto
  have b1: "\<forall>conns2 w2 h2 rnd2 i.
      i < length conns2 \<and> conn_id (conns2 ! i) = conn_id (conns ! j) \<longrightarrow>
      nx (connectionNodes conns2 (v_store (step lib Tick ?s1)) w2 h2 rnd2 ! i) = Some ex \<and>
      ny (connectionNodes conns2 (v_store (step lib Tick ?s1)) w2 h2 rnd2 ! i) = Some ey"
    using rebuild_stored[of "v_store (step lib Tick ?s1)" "conn_id (conns ! j)" ex ey] st
    by blast
  show ?thesis
    unfolding r0 r1 using first second p1 st b1 by (intro conjI)
qed

theorem tick_updates_position_store_witness:
  "v_store (run no_library_forces
     (mount no_library_forces [example_a] 800 600 random_quarter Map.empty None)
     [Tick, Drag 1 (Num 50) (Num 60), Tick]) ''a'' = Some (Num 50, Num 60) \<and>
   ''USER'' \<notin> dom (v_store (run no_library_forces
     (mount no_library_forces [example_a] 800 600 random_quarter Map.empty None)
     [Tick, Drag 1 (Num 50) (Num 60), Tick])) \<and>
   nx (connectionNodes [example_a]
        (v_store (run no_library_forces
           (mount no_library_forces [example_a] 800 600 random_quarter Map.empty None)
           [Tick, Drag 1 (Num 50) (Num 60), Tick]))
        1024 768 random_half ! 0) = Some (Num 50) \<and>
   ny (connectionNodes [example_a]
        (v_store (run no_library_forces
           (mount no_library_forces [example_a] 800 600 random_quarter Map.empty None)
           [Tick, Drag 1 (Num 50) (Num 60), Tick]))
        1024 768 random_half ! 0) = Some (Num 60)"
proof -
  have input: "distinct (map conn_id [example_a])" "''USER'' \<notin> conn_id ` set [example_a]"
    "''USER'' \<notin> dom (Map.empty :: position_store)" "0 < length [example_a]"
    by (simp_all add: example_a_def)
  note dragged = tick_updates_position_store
    [OF input, of no_library_forces 800 600 random_quarter None "[Tick]" "Num 50" "Num 60"]
  note reached = tick_updates_position_store
    [OF input, of no_library_forces 800 600 random_quarter None
       "[Tick, Drag 1 (Num 50) (Num 60), Tick]" "Num 50" "Num 60"]
  have a: "conn_id ([example_a] ! 0) = ''a''" by (simp add: example_a_def)
  from dragged have
    st: "v_store (run no_library_forces
           (mount no_library_forces [example_a] 800 600 random_quarter Map.empty None)
           ([Tick] @ [Drag (Suc 0) (Num 50) (Num 60), Tick])) (conn_id ([example_a] ! 0))
         = Some (Num 50, Num 60)"
    and rb: "\<forall>conns2 w2 h2 rnd2 i.
        i < length conns2 \<and> conn_id (conns2 ! i) = conn_id ([example_a] ! 0) \<longrightarrow>
        nx (connectionNodes conns2
              (v_store (run no_library_forces
                 (mount no_library_forces [example_a] 800 600 random_quarter Map.empty None)
                 ([Tick] @ [Drag (Suc 0) (Num 50) (Num 60), Tick])))
              w2 h2 rnd2 ! i) = Some (Num 50) \<and>
        ny (connectionNodes conns2
              (v_store (run no_library_forces
                 (mount no_library_forces [example_a] 800 600 random_quarter Map.empty None)
                 ([Tick] @ [Drag (Suc 0) (Num 50) (Num 60), Tick])))
              w2 h2 rnd2 ! i) = Some (Num 60)"
    by blast+
  from reached have
    us: "''USER'' \<notin> dom (v_store (run no_library_forces
           (mount no_library_forces [example_a] 800 600 random_quarter Map.empty None)
           [Tick, Drag 1 (Num 50) (Num 60), Tick]))"
    by blast
  have l: "[Tick] @ [Drag (Suc 0) (Num 50) (Num 60), Tick] = [Tick, Drag 1 (Num 50) (Num 60), Tick]"
    by simp
  from rb[rule_format, of 0 "[example_a]" 1024 768 random_half]
  have rb0: "nx (connectionNodes [example_a]
              (v_store (run no_library_forces
                 (mount no_library_forces [example_a] 800 600 random_quarter Map.empty None)
                 ([Tick] @ [Drag (Suc 0) (Num 50) (Num 60), Tick])))
              1024 768 random_half ! 0) = Some (Num 50) \<and>
        ny (connectionNodes [example_a]
              (v_store (run no_library_forces
                 (mount no_library_forces [example_a] 800 600 random_quarter Map.empty None)
                 ([Tick] @ [Drag (Suc 0) (Num 50) (Num 60), Tick])))
              1024 768 random_half ! 0) = Some (Num 60)"
    by simp
  from st[unfolded l a] rb0[unfolded l] us show ?thesis by blast
qed

end
